theory Spec2Isabelle
  imports Complex_Main "HOL-Library.Multiset"
begin

section \<open>Strings of the JavaScript runtime\<close>

text \<open>
  A JavaScript string is modelled as a \<^typ>\<open>string\<close> holding its UTF-8 bytes, so the
  keywords written in Chinese in the source appear below as byte lists. Substring search
  on well-formed UTF-8 finds the same occurrences as the search on code units.
  An exception is the value of its \<open>message\<close>.
\<close>

type_synonym exn = string

fun startsWith :: "string \<Rightarrow> string \<Rightarrow> bool" where
  "startsWith s [] = True"
| "startsWith [] (c # sub) = False"
| "startsWith (d # s) (c # sub) = (d = c \<and> startsWith s sub)"

fun str_includes :: "string \<Rightarrow> string \<Rightarrow> bool" where
  "str_includes [] sub = (sub = [])"
| "str_includes (c # s) sub = (startsWith (c # s) sub \<or> str_includes s sub)"

text \<open>\<open>s.split(sep)\<close> for a separator that is not empty: the pieces between the
  occurrences of \<open>sep\<close>, found from left to right without overlap.\<close>

function split_from :: "string \<Rightarrow> string \<Rightarrow> string \<Rightarrow> string list" where
  "split_from sep acc s =
     (if s = [] then [rev acc]
      else if sep \<noteq> [] \<and> startsWith s sep
        then rev acc # split_from sep [] (drop (length sep) s)
      else split_from sep (hd s # acc) (tl s))"
  by pat_completeness auto
termination
  by (relation "measure (\<lambda>(sep, acc, s). length s)") auto

declare split_from.simps [simp del]

definition split :: "string \<Rightarrow> string \<Rightarrow> string list" where
  "split s sep = split_from sep [] s"

text \<open>Indexing an array: \<open>xs[i]\<close> is \<open>undefined\<close> out of range.\<close>

definition at_index :: "'a list \<Rightarrow> nat \<Rightarrow> 'a option" where
  "at_index xs i = (if i < length xs then Some (xs ! i) else None)"

text \<open>\<open>String(n)\<close> for a natural number.\<close>

function show_nat :: "nat \<Rightarrow> string" where
  "show_nat n =
     (if n < 10 then [char_of (48 + n)]
      else show_nat (n div 10) @ [char_of (48 + n mod 10)])"
  by pat_completeness auto
termination
  by (relation "measure id") auto

declare show_nat.simps [simp del]

section \<open>Types of the core library (\<open>types/index.ts\<close>)\<close>

datatype task_type = Research | Code

datatype project_template = Html | ViteReact | ViteVue | Node | Python

record task_classification =
  cls_type :: task_type
  template :: "project_template option"
  confidence :: rat
  reason :: string

record file_spec =
  path :: string
  description :: string

record project_step =
  step :: nat
  action :: string
  step_file :: string
  step_description :: string

record project_plan =
  projectName :: string
  plan_description :: string
  files :: "file_spec list"
  steps :: "project_step list"

datatype step_status = Pending | Running | Completed | Failed

text \<open>A step of a research plan; its \<open>id\<close>, a random token, is left out.\<close>

record plan_step =
  title :: string
  tool :: string
  input :: string
  status :: step_status

section \<open>The language-model client (\<open>LLMClient\<close>)\<close>

text \<open>
  The text of a prompt is a fixed template of the source with values spliced in; a prompt
  is kept as the name of its template and the spliced values.
\<close>

datatype role = System | User | Assistant

datatype prompt =
    Text string
  | ClassifyPrompt string
  | AnalyzeTaskPrompt string project_template
  | GenerateFileSystemPrompt
  | GenerateFilePrompt string string string "(string \<times> string) list"
  | CreatePlanPrompt string
  | ReportPrompt string string

record message =
  role :: role
  content :: prompt

text \<open>
  The remote model is outside the program: its \<open>n\<close>-th answer is either a sequence of
  text fragments, or some fragments followed by a failure of the request. The client
  records every request it sends.
\<close>

datatype llm_reply = Completes "string list" | Fails "string list" exn

record llm =
  replies :: "nat \<Rightarrow> llm_reply"
  requests :: "message list list"

definition next_reply :: "llm \<Rightarrow> llm_reply" where
  "next_reply l = replies l (length (requests l))"

definition send_request :: "message list \<Rightarrow> llm \<Rightarrow> llm" where
  "send_request msgs l = l\<lparr>requests := requests l @ [msgs]\<rparr>"

text \<open>\<open>chat\<close>: one completion, the whole text of the answer.\<close>

definition chat :: "message list \<Rightarrow> llm \<Rightarrow> (exn + string) \<times> llm" where
  "chat msgs l =
     (case next_reply l of
        Completes cs \<Rightarrow> (Inr (concat cs), send_request msgs l)
      | Fails cs e \<Rightarrow> (Inl e, send_request msgs l))"

text \<open>\<open>chatStream\<close>: the fragments that are not empty, in order, and the failure that
  ends the stream, if any.\<close>

definition chatStream :: "message list \<Rightarrow> llm \<Rightarrow> (string list \<times> exn option) \<times> llm" where
  "chatStream msgs l =
     (case next_reply l of
        Completes cs \<Rightarrow> ((filter (\<lambda>c. c \<noteq> []) cs, None), send_request msgs l)
      | Fails cs e \<Rightarrow> ((filter (\<lambda>c. c \<noteq> []) cs, Some e), send_request msgs l))"

text \<open>
  \<open>chatJSON\<close>: the answer, cut out of a Markdown code fence when it has one, then parsed.
  The parameter \<open>parse\<close> is \<open>JSON.parse(jsonStr.trim())\<close> read at the type the caller
  asks for; it fails with the message of the syntax error.
\<close>

definition fenced :: "string \<Rightarrow> string \<Rightarrow> string" where
  "fenced response fence =
     (case at_index (split response fence) 1 of
        None \<Rightarrow> response
      | Some rest \<Rightarrow> (case at_index (split rest ''```'') 0 of None \<Rightarrow> response | Some j \<Rightarrow> j))"

definition extract_json :: "string \<Rightarrow> string" where
  "extract_json response =
     (if str_includes response ''```json'' then fenced response ''```json''
      else if str_includes response ''```'' then fenced response ''```''
      else response)"

definition chatJSON :: "(string \<Rightarrow> exn + 'a) \<Rightarrow> message list \<Rightarrow> llm \<Rightarrow> (exn + 'a) \<times> llm" where
  "chatJSON parse msgs l =
     (case chat msgs l of
        (Inl e, l') \<Rightarrow> (Inl e, l')
      | (Inr response, l') \<Rightarrow> (parse (extract_json response), l'))"


section \<open>Parts of the runtime the program relies on\<close>

text \<open>
  \<open>String.prototype.toLowerCase\<close> and \<open>JSON.parse\<close> belong to the JavaScript runtime.
  They are parameters of the model: \<open>toLowerCase\<close> as a function on strings, and
  \<open>JSON.parse\<close> once for each type at which the program reads its result (a value of
  that type, or the exception the parser throws).
\<close>

record raw_classification =
  raw_type :: task_type
  raw_template :: "project_template option"
  raw_reason :: string

record raw_step =
  raw_title :: string
  raw_tool :: string
  raw_input :: string

record runtime =
  toLowerCase :: "string \<Rightarrow> string"
  parseClassification :: "string \<Rightarrow> exn + raw_classification"
  parsePlan :: "string \<Rightarrow> exn + project_plan"
  parseSteps :: "string \<Rightarrow> exn + raw_step list"

section \<open>Planner: task classification (\<open>Planner.classifyTask\<close>)\<close>

definition codeKeywords :: "string list" where
  "codeKeywords =
    [[CHR 0xE5, CHR 0x81, CHR 0x9A, CHR 0xE4, CHR 0xB8, CHR 0x80, CHR 0xE5, CHR 0x80, CHR 0x8B],
     [CHR 0xE5, CHR 0xAF, CHR 0xAB, CHR 0xE4, CHR 0xB8, CHR 0x80, CHR 0xE5, CHR 0x80, CHR 0x8B],
     [CHR 0xE9, CHR 0x96, CHR 0x8B, CHR 0xE7, CHR 0x99, CHR 0xBC],
     [CHR 0xE5, CHR 0xAF, CHR 0xA6, CHR 0xE4, CHR 0xBD, CHR 0x9C],
     [CHR 0xE5, CHR 0xBB, CHR 0xBA, CHR 0xE7, CHR 0xAB, CHR 0x8B],
     [CHR 0xE5, CHR 0x89, CHR 0xB5, CHR 0xE5, CHR 0xBB, CHR 0xBA],
     [CHR 0xE9, CHR 0x81, CHR 0x8A, CHR 0xE6, CHR 0x88, CHR 0xB2],
     [CHR 0xE7, CHR 0xB6, CHR 0xB2, CHR 0xE7, CHR 0xAB, CHR 0x99],
     ''app'',
     [CHR 0xE6, CHR 0x87, CHR 0x89, CHR 0xE7, CHR 0x94, CHR 0xA8],
     [CHR 0xE7, CHR 0xA8, CHR 0x8B, CHR 0xE5, CHR 0xBC, CHR 0x8F],
     [CHR 0xE5, CHR 0x8A, CHR 0x9F, CHR 0xE8, CHR 0x83, CHR 0xBD],
     ''make'',
     ''build'',
     ''create'',
     ''develop'',
     ''implement'',
     ''game'',
     ''website'',
     ''application'',
     ''program'']"

definition researchKeywords :: "string list" where
  "researchKeywords =
    [[CHR 0xE7, CHR 0xA0, CHR 0x94, CHR 0xE7, CHR 0xA9, CHR 0xB6],
     [CHR 0xE5, CHR 0x88, CHR 0x86, CHR 0xE6, CHR 0x9E, CHR 0x90],
     [CHR 0xE6, CHR 0xAF, CHR 0x94, CHR 0xE8, CHR 0xBC, CHR 0x83],
     [CHR 0xE4, CHR 0xBB, CHR 0x80, CHR 0xE9, CHR 0xBA, CHR 0xBC, CHR 0xE6, CHR 0x98, CHR 0xAF],
     [CHR 0xE4, CHR 0xBB, CHR 0x8B, CHR 0xE7, CHR 0xB4, CHR 0xB9],
     [CHR 0xE8, CHR 0xAA, CHR 0xAA, CHR 0xE6, CHR 0x98, CHR 0x8E],
     [CHR 0xE6, CHR 0x95, CHR 0x99, CHR 0xE5, CHR 0xAD, CHR 0xB8],
     [CHR 0xE5, CHR 0x8E, CHR 0x9F, CHR 0xE7, CHR 0x90, CHR 0x86],
     [CHR 0xE5, CHR 0xA0, CHR 0xB1, CHR 0xE5, CHR 0x91, CHR 0x8A],
     [CHR 0xE5, CHR 0xBD, CHR 0x99, CHR 0xE6, CHR 0x95, CHR 0xB4],
     [CHR 0xE6, CHR 0x8E, CHR 0xA8, CHR 0xE8, CHR 0x96, CHR 0xA6],
     [CHR 0xE6, CHR 0x95, CHR 0xB4, CHR 0xE7, CHR 0x90, CHR 0x86],
     ''research'',
     ''analyze'',
     ''compare'',
     ''explain'',
     ''tutorial'',
     ''overview'',
     ''how does'',
     ''what is'']"

text \<open>\<open>keywords.filter((kw) => goalLower.includes(kw.toLowerCase())).length\<close>\<close>

definition keywordScore :: "runtime \<Rightarrow> string list \<Rightarrow> string \<Rightarrow> nat" where
  "keywordScore rt keywords goalLower =
     length (filter (\<lambda>kw. str_includes goalLower (toLowerCase rt kw)) keywords)"

definition codeScore :: "runtime \<Rightarrow> string \<Rightarrow> nat" where
  "codeScore rt goal = keywordScore rt codeKeywords (toLowerCase rt goal)"

definition researchScore :: "runtime \<Rightarrow> string \<Rightarrow> nat" where
  "researchScore rt goal = keywordScore rt researchKeywords (toLowerCase rt goal)"

definition some_included :: "string list \<Rightarrow> string \<Rightarrow> bool" where
  "some_included kws goalLower = list_ex (\<lambda>kw. str_includes goalLower kw) kws"

definition selectTemplate :: "string \<Rightarrow> project_template" where
  "selectTemplate goalLower =
     (if some_included [''react'', [CHR 0xE5, CHR 0x85, CHR 0x83, CHR 0xE4, CHR 0xBB, CHR 0xB6], ''component''] goalLower then ViteReact
      else if some_included [''vue''] goalLower then ViteVue
      else if some_included [''python'', [CHR 0xE7, CHR 0x88, CHR 0xAC, CHR 0xE8, CHR 0x9F, CHR 0xB2], [CHR 0xE8, CHR 0x85, CHR 0xB3, CHR 0xE6, CHR 0x9C, CHR 0xAC], ''script''] goalLower then Python
      else if some_included [''node'', [CHR 0xE5, CHR 0xBE, CHR 0x8C, CHR 0xE7, CHR 0xAB, CHR 0xAF], ''api'', ''server''] goalLower then Node
      else Html)"

definition llmClassifyTask :: "runtime \<Rightarrow> string \<Rightarrow> llm \<Rightarrow> task_classification \<times> llm" where
  "llmClassifyTask rt goal l =
     (case chatJSON (parseClassification rt) [\<lparr>role = User, content = ClassifyPrompt goal\<rparr>] l of
        (Inr result, l') \<Rightarrow>
          (\<lparr>cls_type = raw_type result, template = raw_template result,
            confidence = 7 / 10, reason = raw_reason result\<rparr>, l')
      | (Inl e, l') \<Rightarrow>
          (\<lparr>cls_type = Research, template = None, confidence = 1 / 2,
            reason = ''Default to research (LLM classification failed)''\<rparr>, l'))"

definition classifyTask :: "runtime \<Rightarrow> string \<Rightarrow> llm \<Rightarrow> task_classification \<times> llm" where
  "classifyTask rt goal l =
     (let goalLower = toLowerCase rt goal;
          cScore = keywordScore rt codeKeywords goalLower;
          rScore = keywordScore rt researchKeywords goalLower;
          tmpl = (if cScore > rScore then Some (selectTemplate goalLower) else None)
      in if cScore = 0 \<and> rScore = 0 then llmClassifyTask rt goal l
         else if cScore > rScore then
           (\<lparr>cls_type = Code, template = tmpl,
             confidence = min 1 (of_nat cScore / 3),
             reason = ''Detected code-related keywords (score: '' @ show_nat cScore
                        @ '' vs '' @ show_nat rScore @ '')''\<rparr>, l)
         else
           (\<lparr>cls_type = Research, template = None,
             confidence = min 1 (of_nat rScore / 3),
             reason = ''Detected research-related keywords (score: '' @ show_nat rScore
                        @ '' vs '' @ show_nat cScore @ '')''\<rparr>, l))"

section \<open>Coder: project planning and file generation\<close>

definition fallbackPlan :: "string \<Rightarrow> project_plan" where
  "fallbackPlan goal =
     \<lparr>projectName = ''monus_project'',
      plan_description = goal,
      files =
        [\<lparr>path = ''index.html'', description = [CHR 0xE4, CHR 0xB8, CHR 0xBB, CHR 0xE9, CHR 0xA0, CHR 0x81, CHR 0xE9, CHR 0x9D, CHR 0xA2]\<rparr>,
         \<lparr>path = ''style.css'', description = [CHR 0xE6, CHR 0xA8, CHR 0xA3, CHR 0xE5, CHR 0xBC, CHR 0x8F]\<rparr>,
         \<lparr>path = ''script.js'', description = [CHR 0xE8, CHR 0x85, CHR 0xB3, CHR 0xE6, CHR 0x9C, CHR 0xAC]\<rparr>],
      steps =
        [\<lparr>step = 1, action = ''create_file'', step_file = ''index.html'',
           step_description = [CHR 0xE5, CHR 0xBB, CHR 0xBA, CHR 0xE7, CHR 0xAB, CHR 0x8B, CHR 0xE4, CHR 0xB8, CHR 0xBB, CHR 0xE9, CHR 0xA0, CHR 0x81, CHR 0xE9, CHR 0x9D, CHR 0xA2]\<rparr>,
         \<lparr>step = 2, action = ''create_file'', step_file = ''style.css'',
           step_description = [CHR 0xE5, CHR 0xBB, CHR 0xBA, CHR 0xE7, CHR 0xAB, CHR 0x8B, CHR 0xE6, CHR 0xA8, CHR 0xA3, CHR 0xE5, CHR 0xBC, CHR 0x8F]\<rparr>,
         \<lparr>step = 3, action = ''create_file'', step_file = ''script.js'',
           step_description = [CHR 0xE5, CHR 0xBB, CHR 0xBA, CHR 0xE7, CHR 0xAB, CHR 0x8B, CHR 0xE8, CHR 0x85, CHR 0xB3, CHR 0xE6, CHR 0x9C, CHR 0xAC]\<rparr>]\<rparr>"

text \<open>
  \<open>analyzeTask\<close>: the whole of the request and the reading of its answer is inside
  \<open>try\<close>, and the \<open>catch\<close> returns the fallback plan. The result is a sum so that
  "does not raise" is a property of the function and not of its type.
\<close>

definition analyzeTask ::
  "runtime \<Rightarrow> string \<Rightarrow> project_template \<Rightarrow> llm \<Rightarrow> (exn + project_plan) \<times> llm" where
  "analyzeTask rt goal tmpl l =
     (case chatJSON (parsePlan rt) [\<lparr>role = User, content = AnalyzeTaskPrompt goal tmpl\<rparr>] l of
        (Inr plan, l') \<Rightarrow>
          (Inr \<lparr>projectName = (if projectName plan = [] then ''monus_project'' else projectName plan),
                plan_description = plan_description plan,
                files = files plan,
                steps = steps plan\<rparr>, l')
      | (Inl e, l') \<Rightarrow> (Inr (fallbackPlan goal), l'))"

text \<open>
  \<open>generateFile\<close>: the request carries the system prompt, the last four messages of the
  conversation history and the user prompt with a preview of every file written so far.
  The history grows only when the stream has ended without a failure.
\<close>

record coder =
  conversationHistory :: "message list"

definition last_n :: "nat \<Rightarrow> 'a list \<Rightarrow> 'a list" where
  "last_n n xs = drop (length xs - n) xs"

definition preview :: "string \<Rightarrow> string" where
  "preview c = (if length c > 500 then take 500 c @ ''...'' else c)"

definition generateFile ::
  "string \<Rightarrow> string \<Rightarrow> string \<Rightarrow> (string \<times> string) list \<Rightarrow> coder \<Rightarrow> llm
     \<Rightarrow> (string list \<times> exn option) \<times> coder \<times> llm" where
  "generateFile goal filePath fileDesc existingFiles cd l =
     (let userPrompt = GenerateFilePrompt goal filePath fileDesc
                         (map (\<lambda>(p, c). (p, preview c)) existingFiles);
          messages = [\<lparr>role = System, content = GenerateFileSystemPrompt\<rparr>]
                       @ last_n 4 (conversationHistory cd)
                       @ [\<lparr>role = User, content = userPrompt\<rparr>]
      in case chatStream messages l of
           ((chunks, None), l') \<Rightarrow>
             ((chunks, None),
              cd\<lparr>conversationHistory := conversationHistory cd
                   @ [\<lparr>role = User, content = userPrompt\<rparr>,
                      \<lparr>role = Assistant, content = Text (concat chunks)\<rparr>]\<rparr>, l')
         | ((chunks, Some e), l') \<Rightarrow> ((chunks, Some e), cd, l'))"

section \<open>Planner: research plan and report\<close>

definition fallbackSteps :: "string \<Rightarrow> plan_step list" where
  "fallbackSteps goal =
     [\<lparr>title = [CHR 0xE6, CHR 0x90, CHR 0x9C, CHR 0xE5, CHR 0xB0, CHR 0x8B, CHR 0xE7, CHR 0x9B, CHR 0xB8, CHR 0xE9, CHR 0x97, CHR 0x9C, CHR 0xE8, CHR 0xB3, CHR 0x87, CHR 0xE6, CHR 0x96, CHR 0x99], tool = ''browser.search'', input = goal, status = Pending\<rparr>,
      \<lparr>title = [CHR 0xE5, CHR 0x88, CHR 0x86, CHR 0xE6, CHR 0x9E, CHR 0x90, CHR 0xE6, CHR 0x90, CHR 0x9C, CHR 0xE5, CHR 0xB0, CHR 0x8B, CHR 0xE7, CHR 0xB5, CHR 0x90, CHR 0xE6, CHR 0x9E, CHR 0x9C], tool = ''browser.extract'', input = ''Extract main content'',
        status = Pending\<rparr>,
      \<lparr>title = [CHR 0xE7, CHR 0x94, CHR 0x9F, CHR 0xE6, CHR 0x88, CHR 0x90, CHR 0xE5, CHR 0xA0, CHR 0xB1, CHR 0xE5, CHR 0x91, CHR 0x8A], tool = ''generate_report'', input = goal, status = Pending\<rparr>]"

definition createPlan :: "runtime \<Rightarrow> string \<Rightarrow> llm \<Rightarrow> plan_step list \<times> llm" where
  "createPlan rt goal l =
     (case chatJSON (parseSteps rt) [\<lparr>role = User, content = CreatePlanPrompt goal\<rparr>] l of
        (Inr ss, l') \<Rightarrow>
          (map (\<lambda>s. \<lparr>title = raw_title s, tool = raw_tool s, input = raw_input s,
                      status = Pending\<rparr>) ss, l')
      | (Inl e, l') \<Rightarrow> (fallbackSteps goal, l'))"

text \<open>\<open>generateReport\<close> with a content type given, as the server calls it.\<close>

definition generateReport :: "string \<Rightarrow> string \<Rightarrow> llm \<Rightarrow> (exn + string) \<times> llm" where
  "generateReport goal contentType l =
     chat [\<lparr>role = User, content = ReportPrompt goal contentType\<rparr>] l"

section \<open>Paths (\<open>path.join\<close> and \<open>path.dirname\<close>, POSIX)\<close>

text \<open>
  \<open>join\<close> and \<open>dirname\<close> are the functions of the \<open>path\<close> module of the runtime,
  written out for \<open>/\<close> as the only separator: \<open>join\<close> puts its arguments that are not
  empty together with \<open>/\<close> and normalises the result, which removes \<open>.\<close> segments and
  resolves every \<open>..\<close> against the segment before it.
\<close>

fun split_chars :: "(char \<Rightarrow> bool) \<Rightarrow> string \<Rightarrow> string list" where
  "split_chars P [] = [[]]"
| "split_chars P (c # s) =
     (if P c then [] # split_chars P s
      else (case split_chars P s of x # xs \<Rightarrow> (c # x) # xs | [] \<Rightarrow> [[c]]))"

definition segments :: "string \<Rightarrow> string list" where
  "segments p = split_chars (\<lambda>c. c = CHR ''/'') p"

fun join_with :: "string \<Rightarrow> string list \<Rightarrow> string" where
  "join_with sep [] = []"
| "join_with sep [x] = x"
| "join_with sep (x # y # ys) = x @ sep @ join_with sep (y # ys)"

definition normalizeStep :: "bool \<Rightarrow> string list \<Rightarrow> string \<Rightarrow> string list" where
  "normalizeStep allowAboveRoot res seg =
     (if seg = [] \<or> seg = ''.'' then res
      else if seg = ''..'' then
        (if res \<noteq> [] \<and> last res \<noteq> ''..'' then butlast res
         else if allowAboveRoot then res @ [''..'']
         else res)
      else res @ [seg])"

definition normalizeString :: "string list \<Rightarrow> bool \<Rightarrow> string list" where
  "normalizeString segs allowAboveRoot = foldl (normalizeStep allowAboveRoot) [] segs"

definition normalize :: "string \<Rightarrow> string" where
  "normalize p =
     (if p = [] then ''.''
      else
        let isAbsolute = (hd p = CHR ''/'');
            trailingSeparator = (last p = CHR ''/'');
            body = join_with ''/'' (normalizeString (segments p) (\<not> isAbsolute))
        in if body = [] then
             (if isAbsolute then ''/'' else if trailingSeparator then ''./'' else ''.'')
           else (if isAbsolute then ''/'' else []) @ body
                  @ (if trailingSeparator then ''/'' else []))"

definition join :: "string list \<Rightarrow> string" where
  "join args =
     (let parts = filter (\<lambda>a. a \<noteq> []) args
      in if parts = [] then ''.'' else normalize (join_with ''/'' parts))"

text \<open>\<open>dirname\<close> scans from the end for the last \<open>/\<close> that has a segment after it.\<close>

definition dirname :: "string \<Rightarrow> string" where
  "dirname p =
     (if p = [] then ''.''
      else
        let hasRoot = (hd p = CHR ''/'');
            upto = dropWhile (\<lambda>c. c \<noteq> CHR ''/'')
                       (dropWhile (\<lambda>c. c = CHR ''/'') (rev (tl p)))
        in if upto = [] then (if hasRoot then ''/'' else ''.'')
           else if hasRoot \<and> tl upto = [] then ''//''
           else hd p # rev (tl upto))"

section \<open>The file system\<close>

text \<open>
  The file system is a tree: a file with its content, or a directory with its entries.
  A location is the list of names from the root. Symbolic links and permissions are not
  part of the model. A failing operation throws; the exception is named by its error
  code.

  The order in which \<open>readdir\<close> reports the entries of a directory is chosen by the
  operating system, not by the program. The file system carries it as a rank of
  locations: \<open>readdir\<close> reports the entries of a directory by ascending rank. The
  operations of the program leave the rank as it is. Any order of the entries of a
  directory, their names being different, is the order of some rank.
\<close>

datatype node = File string | Dir "(string \<times> node) list"

type_synonym location = "string list"

record filesystem =
  tree :: node
  cwd :: location
  rank :: "location \<Rightarrow> nat"

fun set_entry :: "string \<Rightarrow> 'a \<Rightarrow> (string \<times> 'a) list \<Rightarrow> (string \<times> 'a) list" where
  "set_entry k v [] = [(k, v)]"
| "set_entry k v ((k', v') # es) = (if k' = k then (k, v) # es else (k', v') # set_entry k v es)"

definition del_entry :: "string \<Rightarrow> (string \<times> 'a) list \<Rightarrow> (string \<times> 'a) list" where
  "del_entry k es = filter (\<lambda>e. fst e \<noteq> k) es"

fun lookup :: "node \<Rightarrow> location \<Rightarrow> node option" where
  "lookup n [] = Some n"
| "lookup (File c) (s # p) = None"
| "lookup (Dir es) (s # p) = (case map_of es s of None \<Rightarrow> None | Some ch \<Rightarrow> lookup ch p)"

text \<open>\<open>rimraf\<close>: removes the entry and all below it; a missing entry is no error.\<close>

fun rimraf_at :: "location \<Rightarrow> node \<Rightarrow> node" where
  "rimraf_at [] n = Dir []"
| "rimraf_at (s # p) (File c) = File c"
| "rimraf_at (s # p) (Dir es) =
     (case map_of es s of
        None \<Rightarrow> Dir es
      | Some ch \<Rightarrow> (if p = [] then Dir (del_entry s es) else Dir (set_entry s (rimraf_at p ch) es)))"

text \<open>\<open>mkdirp\<close>: creates the directory and every missing ancestor.\<close>

fun mkdirp_at :: "location \<Rightarrow> node \<Rightarrow> exn + node" where
  "mkdirp_at [] (Dir es) = Inr (Dir es)"
| "mkdirp_at [] (File c) = Inl ''EEXIST''"
| "mkdirp_at (s # p) (File c) = Inl ''ENOTDIR''"
| "mkdirp_at (s # p) (Dir es) =
     (case mkdirp_at p (case map_of es s of None \<Rightarrow> Dir [] | Some ch \<Rightarrow> ch) of
        Inl e \<Rightarrow> Inl e
      | Inr ch' \<Rightarrow> Inr (Dir (set_entry s ch' es)))"

text \<open>\<open>writeFile\<close>: creates or overwrites a file in a directory that exists.\<close>

fun writeFile_at :: "location \<Rightarrow> string \<Rightarrow> node \<Rightarrow> exn + node" where
  "writeFile_at [] txt n = Inl ''EISDIR''"
| "writeFile_at (s # p) txt (File c) = Inl ''ENOTDIR''"
| "writeFile_at (s # p) txt (Dir es) =
     (if p = [] then
        (case map_of es s of
           Some (Dir ds) \<Rightarrow> Inl ''EISDIR''
         | _ \<Rightarrow> Inr (Dir (set_entry s (File txt) es)))
      else
        (case map_of es s of
           None \<Rightarrow> Inl ''ENOENT''
         | Some ch \<Rightarrow>
             (case writeFile_at p txt ch of
                Inl e \<Rightarrow> Inl e
              | Inr ch' \<Rightarrow> Inr (Dir (set_entry s ch' es)))))"

text \<open>
  The operating system resolves a path name to a location: from the root when the name
  starts with \<open>/\<close>, from the working directory of the process otherwise.
\<close>

definition resolveStep :: "location \<Rightarrow> string \<Rightarrow> location" where
  "resolveStep dir seg =
     (if seg = [] \<or> seg = ''.'' then dir
      else if seg = ''..'' then butlast dir
      else dir @ [seg])"

definition resolve :: "filesystem \<Rightarrow> string \<Rightarrow> location" where
  "resolve fs p =
     foldl resolveStep (if p \<noteq> [] \<and> hd p = CHR ''/'' then [] else cwd fs) (segments p)"

definition exists_path :: "string \<Rightarrow> filesystem \<Rightarrow> bool" where
  "exists_path p fs = (lookup (tree fs) (resolve fs p) \<noteq> None)"

definition rimraf :: "string \<Rightarrow> filesystem \<Rightarrow> (exn + unit) \<times> filesystem" where
  "rimraf p fs = (Inr (), fs\<lparr>tree := rimraf_at (resolve fs p) (tree fs)\<rparr>)"

definition mkdirp :: "string \<Rightarrow> filesystem \<Rightarrow> (exn + unit) \<times> filesystem" where
  "mkdirp p fs =
     (case mkdirp_at (resolve fs p) (tree fs) of
        Inl e \<Rightarrow> (Inl e, fs)
      | Inr r \<Rightarrow> (Inr (), fs\<lparr>tree := r\<rparr>))"

text \<open>A path name that ends with \<open>/\<close> names a directory and cannot be opened for writing.\<close>

definition writeFile :: "string \<Rightarrow> string \<Rightarrow> filesystem \<Rightarrow> (exn + unit) \<times> filesystem" where
  "writeFile p txt fs =
     (if p \<noteq> [] \<and> last p = CHR ''/'' then (Inl ''EISDIR'', fs)
      else
        (case writeFile_at (resolve fs p) txt (tree fs) of
           Inl e \<Rightarrow> (Inl e, fs)
         | Inr r \<Rightarrow> (Inr (), fs\<lparr>tree := r\<rparr>)))"

text \<open>Awaiting one operation after the other: the first exception ends the sequence.\<close>

fun in_sequence :: "('s \<Rightarrow> (exn + unit) \<times> 's) list \<Rightarrow> 's \<Rightarrow> (exn + unit) \<times> 's" where
  "in_sequence [] s = (Inr (), s)"
| "in_sequence (f # fs) s =
     (case f s of (Inl e, s') \<Rightarrow> (Inl e, s') | (Inr u, s') \<Rightarrow> in_sequence fs s')"

section \<open>Sandbox: project scaffolding and file management (\<open>SandboxTool\<close>)\<close>

datatype file_type = TFile | TDirectory

record file_info =
  info_path :: string
  info_type :: file_type
  file_size :: "nat option"

record project_info =
  name :: string
  project_path :: string
  project_files :: "file_info list"

record sandbox =
  workspaceDir :: string

text \<open>The constructor: the workspace directory given, or \<open>sandbox_workspace\<close> under the
  working directory \<open>process.cwd()\<close>.\<close>

definition SandboxTool :: "string option \<Rightarrow> string \<Rightarrow> sandbox" where
  "SandboxTool dir process_cwd =
     \<lparr>workspaceDir = (case dir of Some d \<Rightarrow> d | None \<Rightarrow> join [process_cwd, ''sandbox_workspace''])\<rparr>"

subsection \<open>Boilerplate of the templates\<close>

definition text_of_lines :: "string list \<Rightarrow> string" where
  "text_of_lines ls = join_with [CHR 0x0A] ls"

text \<open>\<open>JSON.stringify\<close> of a string, and the name of the package:
  \<open>projectPath.split(/[\\/]/).pop()\<close>.\<close>

definition hex_digit :: "nat \<Rightarrow> char" where
  "hex_digit n = (if n < 10 then char_of (48 + n) else char_of (87 + n))"

definition json_escape :: "char \<Rightarrow> string" where
  "json_escape c =
     (if c = CHR 0x22 then [CHR 0x5C, CHR 0x22]
      else if c = CHR 0x5C then [CHR 0x5C, CHR 0x5C]
      else if c = CHR 0x08 then [CHR 0x5C, CHR ''b'']
      else if c = CHR 0x0C then [CHR 0x5C, CHR ''f'']
      else if c = CHR 0x0A then [CHR 0x5C, CHR ''n'']
      else if c = CHR 0x0D then [CHR 0x5C, CHR ''r'']
      else if c = CHR 0x09 then [CHR 0x5C, CHR ''t'']
      else if (of_char c :: nat) < 32 then
        [CHR 0x5C, CHR ''u'', CHR ''0'', CHR ''0'',
         hex_digit (of_char c div 16), hex_digit (of_char c mod 16)]
      else [c])"

definition json_quote :: "string \<Rightarrow> string" where
  "json_quote s = [CHR 0x22] @ concat (map json_escape s) @ [CHR 0x22]"

definition packageName :: "string \<Rightarrow> string" where
  "packageName projectPath = last (split_chars (\<lambda>c. c = CHR 0x5C \<or> c = CHR ''/'') projectPath)"

definition html_indexHtml :: string where
  \<open>html_indexHtml =
    text_of_lines
    [''<!DOCTYPE html>'',
     ''<html lang="en">'',
     ''<head>'',
     ''    <meta charset="UTF-8">'',
     ''    <meta name="viewport" content="width=device-width, initial-scale=1.0">'',
     ''    <title>Monus App</title>'',
     ''    <link rel="stylesheet" href="style.css">'',
     ''</head>'',
     ''<body>'',
     ''    <div id="app">'',
     ''        <h1>Hello Monus!</h1>'',
     ''    </div>'',
     ''    <script src="script.js"></script>'',
     ''</body>'',
     ''</html>'']\<close>

definition html_styleCss :: string where
  \<open>html_styleCss =
    text_of_lines
    [''* {'',
     ''    margin: 0;'',
     ''    padding: 0;'',
     ''    box-sizing: border-box;'',
     ''}'',
     '''',
     ''body {'',
     ''    font-family: -apple-system, BlinkMacSystemFont, '' @ [CHR 0x27] @ ''Segoe UI'' @ [CHR 0x27] @ '', Roboto, sans-serif;'',
     ''    background: linear-gradient(135deg, #1a1a2e 0%, #16213e 100%);'',
     ''    color: white;'',
     ''    min-height: 100vh;'',
     ''    display: flex;'',
     ''    justify-content: center;'',
     ''    align-items: center;'',
     ''}'',
     '''',
     ''#app {'',
     ''    text-align: center;'',
     ''}'',
     '''',
     ''h1 {'',
     ''    font-size: 3rem;'',
     ''    background: linear-gradient(90deg, #00d9ff, #00ff88);'',
     ''    -webkit-background-clip: text;'',
     ''    -webkit-text-fill-color: transparent;'',
     ''}'']\<close>

definition html_scriptJs :: string where
  \<open>html_scriptJs =
    text_of_lines
    [''// Monus Generated App'',
     ''console.log('' @ [CHR 0x27] @ ''Monus App Started!'' @ [CHR 0x27] @ '');'',
     '''',
     ''document.addEventListener('' @ [CHR 0x27] @ ''DOMContentLoaded'' @ [CHR 0x27] @ '', () => {'',
     ''    const app = document.getElementById('' @ [CHR 0x27] @ ''app'' @ [CHR 0x27] @ '');'',
     ''    // Your code here'',
     ''});'']\<close>

definition react_viteConfig :: string where
  \<open>react_viteConfig =
    text_of_lines
    [''import { defineConfig } from '' @ [CHR 0x27] @ ''vite'' @ [CHR 0x27],
     ''import react from '' @ [CHR 0x27] @ ''@vitejs/plugin-react'' @ [CHR 0x27],
     '''',
     ''export default defineConfig({'',
     ''  plugins: [react()],'',
     ''})'']\<close>

definition react_indexHtml :: string where
  \<open>react_indexHtml =
    text_of_lines
    [''<!DOCTYPE html>'',
     ''<html lang="en">'',
     ''  <head>'',
     ''    <meta charset="UTF-8" />'',
     ''    <meta name="viewport" content="width=device-width, initial-scale=1.0" />'',
     ''    <title>Monus App</title>'',
     ''  </head>'',
     ''  <body>'',
     ''    <div id="root"></div>'',
     ''    <script type="module" src="/src/main.jsx"></script>'',
     ''  </body>'',
     ''</html>'']\<close>

definition react_mainJsx :: string where
  \<open>react_mainJsx =
    text_of_lines
    [''import React from '' @ [CHR 0x27] @ ''react'' @ [CHR 0x27],
     ''import ReactDOM from '' @ [CHR 0x27] @ ''react-dom/client'' @ [CHR 0x27],
     ''import App from '' @ [CHR 0x27] @ ''./App.jsx'' @ [CHR 0x27],
     ''import '' @ [CHR 0x27] @ ''./index.css'' @ [CHR 0x27],
     '''',
     ''ReactDOM.createRoot(document.getElementById('' @ [CHR 0x27] @ ''root'' @ [CHR 0x27] @ '')).render('',
     ''  <React.StrictMode>'',
     ''    <App />'',
     ''  </React.StrictMode>,'',
     '')'']\<close>

definition react_appJsx :: string where
  \<open>react_appJsx =
    text_of_lines
    [''import { useState } from '' @ [CHR 0x27] @ ''react'' @ [CHR 0x27],
     '''',
     ''function App() {'',
     ''  const [count, setCount] = useState(0)'',
     '''',
     ''  return ('',
     ''    <div className="app">'',
     ''      <h1>Monus App</h1>'',
     ''      <div className="card">'',
     ''        <button onClick={() => setCount((count) => count + 1)}>'',
     ''          count is {count}'',
     ''        </button>'',
     ''      </div>'',
     ''    </div>'',
     ''  )'',
     ''}'',
     '''',
     ''export default App'']\<close>

definition react_indexCss :: string where
  \<open>react_indexCss =
    text_of_lines
    ['':root {'',
     ''  font-family: Inter, system-ui, sans-serif;'',
     ''  background: #242424;'',
     ''  color: rgba(255, 255, 255, 0.87);'',
     ''}'',
     '''',
     ''body {'',
     ''  margin: 0;'',
     ''  min-height: 100vh;'',
     ''  display: flex;'',
     ''  justify-content: center;'',
     ''  align-items: center;'',
     ''}'',
     '''',
     ''.app {'',
     ''  text-align: center;'',
     ''}'',
     '''',
     ''button {'',
     ''  padding: 0.6em 1.2em;'',
     ''  font-size: 1em;'',
     ''  font-weight: 500;'',
     ''  background-color: #1a1a1a;'',
     ''  border: 1px solid transparent;'',
     ''  border-radius: 8px;'',
     ''  cursor: pointer;'',
     ''  transition: border-color 0.25s;'',
     ''}'',
     '''',
     ''button:hover {'',
     ''  border-color: #646cff;'',
     ''}'']\<close>

definition vue_viteConfig :: string where
  \<open>vue_viteConfig =
    text_of_lines
    [''import { defineConfig } from '' @ [CHR 0x27] @ ''vite'' @ [CHR 0x27],
     ''import vue from '' @ [CHR 0x27] @ ''@vitejs/plugin-vue'' @ [CHR 0x27],
     '''',
     ''export default defineConfig({'',
     ''  plugins: [vue()],'',
     ''})'']\<close>

definition vue_indexHtml :: string where
  \<open>vue_indexHtml =
    text_of_lines
    [''<!DOCTYPE html>'',
     ''<html lang="en">'',
     ''  <head>'',
     ''    <meta charset="UTF-8" />'',
     ''    <meta name="viewport" content="width=device-width, initial-scale=1.0" />'',
     ''    <title>Monus App</title>'',
     ''  </head>'',
     ''  <body>'',
     ''    <div id="app"></div>'',
     ''    <script type="module" src="/src/main.js"></script>'',
     ''  </body>'',
     ''</html>'']\<close>

definition vue_mainJs :: string where
  \<open>vue_mainJs =
    text_of_lines
    [''import { createApp } from '' @ [CHR 0x27] @ ''vue'' @ [CHR 0x27],
     ''import App from '' @ [CHR 0x27] @ ''./App.vue'' @ [CHR 0x27],
     ''import '' @ [CHR 0x27] @ ''./style.css'' @ [CHR 0x27],
     '''',
     ''createApp(App).mount('' @ [CHR 0x27] @ ''#app'' @ [CHR 0x27] @ '')'']\<close>

definition vue_appVue :: string where
  \<open>vue_appVue =
    text_of_lines
    [''<script setup>'',
     ''import { ref } from '' @ [CHR 0x27] @ ''vue'' @ [CHR 0x27],
     '''',
     ''const count = ref(0)'',
     ''</script>'',
     '''',
     ''<template>'',
     ''  <div class="app">'',
     ''    <h1>Monus App</h1>'',
     ''    <div class="card">'',
     ''      <button @click="count++">count is {{ count }}</button>'',
     ''    </div>'',
     ''  </div>'',
     ''</template>'',
     '''',
     ''<style scoped>'',
     ''.app {'',
     ''  text-align: center;'',
     ''}'',
     ''</style>'']\<close>

definition vue_styleCss :: string where
  \<open>vue_styleCss =
    text_of_lines
    ['':root {'',
     ''  font-family: Inter, system-ui, sans-serif;'',
     ''  background: #242424;'',
     ''  color: rgba(255, 255, 255, 0.87);'',
     ''}'',
     '''',
     ''body {'',
     ''  margin: 0;'',
     ''  min-height: 100vh;'',
     ''  display: flex;'',
     ''  justify-content: center;'',
     ''  align-items: center;'',
     ''}'',
     '''',
     ''button {'',
     ''  padding: 0.6em 1.2em;'',
     ''  font-size: 1em;'',
     ''  font-weight: 500;'',
     ''  background-color: #1a1a1a;'',
     ''  border: 1px solid transparent;'',
     ''  border-radius: 8px;'',
     ''  cursor: pointer;'',
     ''  transition: border-color 0.25s;'',
     ''}'',
     '''',
     ''button:hover {'',
     ''  border-color: #646cff;'',
     ''}'']\<close>

definition node_indexJs :: string where
  \<open>node_indexJs =
    text_of_lines
    [''// Monus Generated Node.js App'',
     ''console.log('' @ [CHR 0x27] @ ''Hello from Monus!'' @ [CHR 0x27] @ '');'',
     '''',
     ''async function main() {'',
     ''  // Your code here'',
     ''}'',
     '''',
     ''main().catch(console.error);'']\<close>

definition python_mainPy :: string where
  \<open>python_mainPy =
    text_of_lines
    [''"""'',
     ''Monus Generated Python App'',
     ''"""'',
     '''',
     ''def main():'',
     ''    print("Hello from Monus!")'',
     '''',
     ''if __name__ == "__main__":'',
     ''    main()'']\<close>

definition react_packageJson :: "string \<Rightarrow> string" where
  \<open>react_packageJson projectPath =
    text_of_lines
     ([''{'',
       ''  "name": '' @ json_quote (packageName projectPath) @ '',''] @
      [''  "private": true,'',
      ''  "version": "0.0.0",'',
      ''  "type": "module",'',
      ''  "scripts": {'',
      ''    "dev": "vite",'',
      ''    "build": "vite build",'',
      ''    "preview": "vite preview"'',
      ''  },'',
      ''  "dependencies": {'',
      ''    "react": "^18.2.0",'',
      ''    "react-dom": "^18.2.0"'',
      ''  },'',
      ''  "devDependencies": {'',
      ''    "@vitejs/plugin-react": "^4.2.0",'',
      ''    "vite": "^5.0.0"'',
      ''  }'',
      ''}''])\<close>

definition vue_packageJson :: "string \<Rightarrow> string" where
  \<open>vue_packageJson projectPath =
    text_of_lines
     ([''{'',
       ''  "name": '' @ json_quote (packageName projectPath) @ '',''] @
      [''  "private": true,'',
      ''  "version": "0.0.0",'',
      ''  "type": "module",'',
      ''  "scripts": {'',
      ''    "dev": "vite",'',
      ''    "build": "vite build",'',
      ''    "preview": "vite preview"'',
      ''  },'',
      ''  "dependencies": {'',
      ''    "vue": "^3.4.0"'',
      ''  },'',
      ''  "devDependencies": {'',
      ''    "@vitejs/plugin-vue": "^5.0.0",'',
      ''    "vite": "^5.0.0"'',
      ''  }'',
      ''}''])\<close>

definition node_packageJson :: "string \<Rightarrow> string" where
  \<open>node_packageJson projectPath =
    text_of_lines
     ([''{'',
       ''  "name": '' @ json_quote (packageName projectPath) @ '',''] @
      [''  "version": "1.0.0",'',
      ''  "type": "module",'',
      ''  "main": "src/index.js",'',
      ''  "scripts": {'',
      ''    "start": "node src/index.js",'',
      ''    "dev": "node --watch src/index.js"'',
      ''  }'',
      ''}''])\<close>

subsection \<open>Operations\<close>

definition initHTMLProject :: "string \<Rightarrow> filesystem \<Rightarrow> (exn + unit) \<times> filesystem" where
  "initHTMLProject projectPath =
     in_sequence
       [writeFile (join [projectPath, ''index.html'']) html_indexHtml,
        writeFile (join [projectPath, ''style.css'']) html_styleCss,
        writeFile (join [projectPath, ''script.js'']) html_scriptJs]"

definition initViteReactProject :: "string \<Rightarrow> filesystem \<Rightarrow> (exn + unit) \<times> filesystem" where
  "initViteReactProject projectPath =
     in_sequence
       [mkdirp (join [projectPath, ''src'']),
        mkdirp (join [projectPath, ''public'']),
        writeFile (join [projectPath, ''package.json'']) (react_packageJson projectPath),
        writeFile (join [projectPath, ''vite.config.js'']) react_viteConfig,
        writeFile (join [projectPath, ''index.html'']) react_indexHtml,
        writeFile (join [projectPath, ''src'', ''main.jsx'']) react_mainJsx,
        writeFile (join [projectPath, ''src'', ''App.jsx'']) react_appJsx,
        writeFile (join [projectPath, ''src'', ''index.css'']) react_indexCss]"

definition initViteVueProject :: "string \<Rightarrow> filesystem \<Rightarrow> (exn + unit) \<times> filesystem" where
  "initViteVueProject projectPath =
     in_sequence
       [mkdirp (join [projectPath, ''src'']),
        writeFile (join [projectPath, ''package.json'']) (vue_packageJson projectPath),
        writeFile (join [projectPath, ''vite.config.js'']) vue_viteConfig,
        writeFile (join [projectPath, ''index.html'']) vue_indexHtml,
        writeFile (join [projectPath, ''src'', ''main.js'']) vue_mainJs,
        writeFile (join [projectPath, ''src'', ''App.vue'']) vue_appVue,
        writeFile (join [projectPath, ''src'', ''style.css'']) vue_styleCss]"

definition initNodeProject :: "string \<Rightarrow> filesystem \<Rightarrow> (exn + unit) \<times> filesystem" where
  "initNodeProject projectPath =
     in_sequence
       [mkdirp (join [projectPath, ''src'']),
        writeFile (join [projectPath, ''package.json'']) (node_packageJson projectPath),
        writeFile (join [projectPath, ''src'', ''index.js'']) node_indexJs]"

definition initPythonProject :: "string \<Rightarrow> filesystem \<Rightarrow> (exn + unit) \<times> filesystem" where
  "initPythonProject projectPath =
     in_sequence
       [writeFile (join [projectPath, ''main.py'']) python_mainPy,
        writeFile (join [projectPath, ''requirements.txt'']) []]"

text \<open>
  \<open>readdir\<close>: the entries of the directory at a location, in the order of the
  operating system.
\<close>

definition readdir :: "filesystem \<Rightarrow> location \<Rightarrow> (string \<times> node) list \<Rightarrow> (string \<times> node) list" where
  "readdir fs dir es = sort_key (\<lambda>e. rank fs (dir @ [fst e])) es"

text \<open>
  \<open>listFiles\<close>: the entries of a directory of the project in the order of \<open>readdir\<close>,
  skipping dot-files and \<open>node_modules\<close>, each directory followed by its own listing.
  The source lists a subdirectory by calling itself with the relative path of the entry
  it has just read; the model goes down into that entry.
\<close>

definition skipped :: "string \<Rightarrow> bool" where
  "skipped entry = (startsWith entry ''.'' \<or> entry = ''node_modules'')"

definition relativePath :: "string \<Rightarrow> string \<Rightarrow> string" where
  "relativePath subPath entry = (if subPath = [] then entry else subPath @ ''/'' @ entry)"

function listEntries ::
  "filesystem \<Rightarrow> location \<Rightarrow> string \<Rightarrow> (string \<times> node) list \<Rightarrow> file_info list" where
  "listEntries fs dir subPath es =
     concat
       (map (\<lambda>(entry, n).
               if skipped entry then []
               else (case n of
                       File c \<Rightarrow>
                         [\<lparr>info_path = relativePath subPath entry, info_type = TFile,
                           file_size = Some (length c)\<rparr>]
                     | Dir ds \<Rightarrow>
                         \<lparr>info_path = relativePath subPath entry, info_type = TDirectory,
                          file_size = None\<rparr>
                           # listEntries fs (dir @ [entry]) (relativePath subPath entry) ds))
          (readdir fs dir es))"
  by pat_completeness auto
termination
proof (relation "measure (\<lambda>(fs, dir, sub, es). size_list (size_prod (\<lambda>x. 0) size) es)")
  show "wf (measure (\<lambda>(fs, dir, sub, es). size_list (size_prod (\<lambda>x. 0) size) es))"
    by simp
next
  fix fs :: filesystem and dir :: location and subPath :: string
    and es :: "(string \<times> node) list" and x :: "string \<times> node"
    and entry :: string and n :: node and ds :: "(string \<times> node) list"
  assume "x \<in> set (readdir fs dir es)" and "(entry, n) = x" and "n = Dir ds"
  then have mem: "(entry, Dir ds) \<in> set es" by (simp add: readdir_def)
  have "(entry, Dir ds) \<in> set es
          \<Longrightarrow> size_list (size_prod (\<lambda>x. 0) size) ds < size_list (size_prod (\<lambda>x. 0) size) es"
    by (induction es) auto
  with mem show "((fs, dir @ [entry], relativePath subPath entry, ds), fs, dir, subPath, es)
          \<in> measure (\<lambda>(fs, dir, sub, es). size_list (size_prod (\<lambda>x. 0) size) es)"
    by simp
qed

declare listEntries.simps [simp del]

definition listFiles :: "sandbox \<Rightarrow> string \<Rightarrow> string \<Rightarrow> filesystem \<Rightarrow> exn + file_info list" where
  "listFiles sb project subPath fs =
     (case lookup (tree fs) (resolve fs (join [workspaceDir sb, project, subPath])) of
        None \<Rightarrow> Inr []
      | Some (File c) \<Rightarrow> Inl ''ENOTDIR''
      | Some (Dir es) \<Rightarrow>
          Inr (listEntries fs (resolve fs (join [workspaceDir sb, project, subPath])) subPath es))"

definition initTemplate ::
  "project_template \<Rightarrow> string \<Rightarrow> filesystem \<Rightarrow> (exn + unit) \<times> filesystem" where
  "initTemplate t projectPath =
     (case t of
        Html \<Rightarrow> initHTMLProject projectPath
      | ViteReact \<Rightarrow> initViteReactProject projectPath
      | ViteVue \<Rightarrow> initViteVueProject projectPath
      | Node \<Rightarrow> initNodeProject projectPath
      | Python \<Rightarrow> initPythonProject projectPath)"

definition initProject ::
  "sandbox \<Rightarrow> string \<Rightarrow> project_template \<Rightarrow> filesystem \<Rightarrow> (exn + project_info) \<times> filesystem" where
  "initProject sb nm t fs =
     (let projectPath = join [workspaceDir sb, nm]
      in case in_sequence
                [(\<lambda>fs. if exists_path projectPath fs then rimraf projectPath fs else (Inr (), fs)),
                 mkdirp projectPath,
                 initTemplate t projectPath] fs of
           (Inl e, fs') \<Rightarrow> (Inl e, fs')
         | (Inr u, fs') \<Rightarrow>
             (case listFiles sb nm [] fs' of
                Inl e \<Rightarrow> (Inl e, fs')
              | Inr listing \<Rightarrow>
                  (Inr \<lparr>name = nm, project_path = projectPath, project_files = listing\<rparr>, fs')))"

definition writeProjectFile ::
  "sandbox \<Rightarrow> string \<Rightarrow> string \<Rightarrow> string \<Rightarrow> filesystem \<Rightarrow> (exn + unit) \<times> filesystem" where
  "writeProjectFile sb project filePath txt =
     (let fullPath = join [workspaceDir sb, project, filePath]
      in in_sequence [mkdirp (dirname fullPath), writeFile fullPath txt])"

subsection \<open>Running a command\<close>

text \<open>
  What \<open>child_process.exec\<close> does is outside the program. The run of the command ends in
  one of three ways, and the promise of \<open>execAsync\<close> resolves with the two outputs after
  exit code 0 and rejects otherwise, with an error object carrying the outputs and
  \<open>code\<close>: the exit code, \<open>null\<close> when the process was killed at the timeout, the name of
  the system error when the process could not be started.
\<close>

datatype process_outcome =
    Exited nat string string
  | TimedOut string string
  | SpawnFailed string string

datatype code_value = NumCode int | StrCode string

record exec_error =
  err_stdout :: "string option"
  err_stderr :: "string option"
  err_message :: string
  err_code :: "code_value option"

definition execAsync :: "process_outcome \<Rightarrow> exec_error + string \<times> string" where
  "execAsync outcome =
     (case outcome of
        Exited n out err \<Rightarrow>
          (if n = 0 then Inr (out, err)
           else Inl \<lparr>err_stdout = Some out, err_stderr = Some err,
                     err_message = ''Command failed'', err_code = Some (NumCode (int n))\<rparr>)
      | TimedOut out err \<Rightarrow>
          Inl \<lparr>err_stdout = Some out, err_stderr = Some err,
                err_message = ''Command failed'', err_code = None\<rparr>
      | SpawnFailed c msg \<Rightarrow>
          Inl \<lparr>err_stdout = Some [], err_stderr = Some [],
                err_message = msg, err_code = Some (StrCode c)\<rparr>)"

record command_result =
  success :: bool
  stdout :: string
  stderr :: string
  code :: code_value

definition runCommand ::
  "(string \<Rightarrow> string \<Rightarrow> nat \<Rightarrow> process_outcome) \<Rightarrow> sandbox \<Rightarrow> string \<Rightarrow> string \<Rightarrow> nat
     \<Rightarrow> filesystem \<Rightarrow> exn + command_result" where
  "runCommand exec sb project command timeout fs =
     (let projectPath = join [workspaceDir sb, project]
      in if \<not> exists_path projectPath fs then
           Inr \<lparr>success = False, stdout = [], stderr = ''Project not found'', code = NumCode 1\<rparr>
         else
           (case execAsync (exec command projectPath timeout) of
              Inr (out, err) \<Rightarrow>
                Inr \<lparr>success = True, stdout = out, stderr = err, code = NumCode 0\<rparr>
            | Inl error \<Rightarrow>
                Inr \<lparr>success = False,
                      stdout = (case err_stdout error of Some s \<Rightarrow> s | None \<Rightarrow> []),
                      stderr = (case err_stderr error of Some s \<Rightarrow> s | None \<Rightarrow> err_message error),
                      code = (case err_code error of Some c \<Rightarrow> c | None \<Rightarrow> NumCode 1)\<rparr>))"

section \<open>The server: one session on a WebSocket connection\<close>

text \<open>
  The events sent to the client, one constructor for each shape of message. \<open>ws.send\<close>
  appends to the log of the connection.
\<close>

datatype event =
    Classification task_type "project_template option" rat string
  | Phase string
  | Progress int
  | Step string string
  | ProjectCreated string "file_info list"
  | FileStart string
  | FileChunk string string
  | FileComplete string string
  | DoneCode string string string "string list"
  | DoneResearch string string string
  | Error string

record world =
  events :: "event list"
  model :: llm
  disk :: filesystem

definition send :: "event \<Rightarrow> world \<Rightarrow> world" where
  "send e w = w\<lparr>events := events w @ [e]\<rparr>"

text \<open>
  \<open>10 + Math.floor(((i + 1) / totalFiles) * 80)\<close>. The model computes the quotient
  exactly; the source computes it in double precision.
\<close>

definition overallProgress :: "nat \<Rightarrow> nat \<Rightarrow> int" where
  "overallProgress i totalFiles = 10 + \<lfloor>(of_nat (i + 1) / of_nat totalFiles) * (80 :: rat)\<rfloor>"

text \<open>
  The loop of \<open>runCodeGeneration\<close> over the files of the plan, from index \<open>i\<close> on.
  \<open>existingFiles\<close> holds the files written so far, in the order of their first writing.
\<close>

fun generateFiles ::
  "sandbox \<Rightarrow> string \<Rightarrow> string \<Rightarrow> nat \<Rightarrow> nat \<Rightarrow> file_spec list \<Rightarrow> (string \<times> string) list
     \<Rightarrow> coder \<Rightarrow> world \<Rightarrow> (exn + (string \<times> string) list) \<times> world" where
  "generateFiles sb goal project totalFiles i [] existingFiles cd w = (Inr existingFiles, w)"
| "generateFiles sb goal project totalFiles i (fileInfo # rest) existingFiles cd w =
     (let filePath = path fileInfo; fileDesc = description fileInfo
      in if filePath = [] then
           generateFiles sb goal project totalFiles (i + 1) rest existingFiles cd w
         else
           let w1 = send (FileStart filePath) w;
               w2 = send (Progress (overallProgress i totalFiles)) w1;
               w3 = send (Step (''Generating '' @ filePath) ''running'') w2
           in case generateFile goal filePath fileDesc existingFiles cd (model w3) of
                ((chunks, failure), cd', l') \<Rightarrow>
                  let w4 = foldl (\<lambda>w chunk. send (FileChunk filePath chunk) w)
                             (w3\<lparr>model := l'\<rparr>) chunks;
                      txt = concat chunks
                  in case failure of
                       Some e \<Rightarrow> (Inl e, w4)
                     | None \<Rightarrow>
                         (case writeProjectFile sb project filePath txt (disk w4) of
                            (Inl e, d') \<Rightarrow> (Inl e, w4\<lparr>disk := d'\<rparr>)
                          | (Inr u, d') \<Rightarrow>
                              let w5 = send (FileComplete filePath txt) (w4\<lparr>disk := d'\<rparr>);
                                  w6 = send (Step (''Generated '' @ filePath) ''done'') w5
                              in generateFiles sb goal project totalFiles (i + 1) rest
                                   (set_entry filePath txt existingFiles) cd' w6))"

definition runCodeGeneration ::
  "runtime \<Rightarrow> sandbox \<Rightarrow> string \<Rightarrow> string \<Rightarrow> project_template \<Rightarrow> coder \<Rightarrow> world
     \<Rightarrow> (exn + unit) \<times> world" where
  "runCodeGeneration rt sb taskId goal tmpl cd w =
     (let w1 = send (Progress 5) (send (Phase ''planning'') w)
      in case analyzeTask rt goal tmpl (model w1) of
           (Inl e, l') \<Rightarrow> (Inl e, w1\<lparr>model := l'\<rparr>)
         | (Inr plan, l') \<Rightarrow>
             let project = projectName plan;
                 w2 = send (Progress 10) (w1\<lparr>model := l'\<rparr>);
                 w3 = send (Step (''Creating project: '' @ project) ''running'') w2
             in case initProject sb project tmpl (disk w3) of
                  (Inl e, d') \<Rightarrow> (Inl e, w3\<lparr>disk := d'\<rparr>)
                | (Inr initResult, d') \<Rightarrow>
                    let w4 = send (ProjectCreated project (project_files initResult))
                               (w3\<lparr>disk := d'\<rparr>);
                        w5 = send (Phase ''writing'') w4
                    in case generateFiles sb goal project (length (files plan)) 0 (files plan)
                              [] cd w5 of
                         (Inl e, w6) \<Rightarrow> (Inl e, w6)
                       | (Inr existingFiles, w6) \<Rightarrow>
                           (Inr (),
                            send (DoneCode taskId project
                                    (''/sandbox/'' @ project @ ''/index.html'')
                                    (map fst existingFiles))
                              (send (Phase ''complete'') (send (Progress 100) w6))))"

definition runResearch :: "runtime \<Rightarrow> string \<Rightarrow> string \<Rightarrow> world \<Rightarrow> (exn + unit) \<times> world" where
  "runResearch rt taskId goal w =
     (let w1 = send (Progress 10) (send (Phase ''planning'') w)
      in case createPlan rt goal (model w1) of
           (plan, l') \<Rightarrow>
             let w2 = send (Step (''Created '' @ show_nat (length plan) @ '' steps'') ''done'')
                        (w1\<lparr>model := l'\<rparr>);
                 w3 = send (Progress 50) (send (Phase ''writing'') w2)
             in case generateReport goal ''overview'' (model w3) of
                  (Inl e, l'') \<Rightarrow> (Inl e, w3\<lparr>model := l''\<rparr>)
                | (Inr report, l'') \<Rightarrow>
                    (Inr (),
                     send (DoneResearch taskId taskId report)
                       (send (Phase ''complete'') (send (Progress 100) (w3\<lparr>model := l''\<rparr>)))))"

text \<open>
  The start message is the JSON text of the WebSocket frame. A JSON value, its
  properties and its truth value in a condition:
\<close>

datatype json =
    JNull
  | JBool bool
  | JNum rat
  | JStr string
  | JArr "json list"
  | JObj "(string \<times> json) list"

definition property :: "json \<Rightarrow> string \<Rightarrow> json option" where
  "property v k = (case v of JObj kvs \<Rightarrow> map_of kvs k | _ \<Rightarrow> None)"

definition falsy :: "json option \<Rightarrow> bool" where
  "falsy v =
     (case v of
        None \<Rightarrow> True
      | Some JNull \<Rightarrow> True
      | Some (JBool b) \<Rightarrow> \<not> b
      | Some (JNum n) \<Rightarrow> n = 0
      | Some (JStr s) \<Rightarrow> s = []
      | Some _ \<Rightarrow> False)"

text \<open>
  \<open>onMessage\<close>: \<open>parse\<close> is \<open>JSON.parse\<close> on the frame, \<open>apiKey\<close> the environment variable
  \<open>DEEPSEEK_API_KEY\<close>. Every exception below the \<open>try\<close> becomes an \<open>error\<close> event. With a
  goal that is not a string the call \<open>goal.toLowerCase()\<close> in the classifier throws.
\<close>

definition classifyAndRun ::
  "runtime \<Rightarrow> sandbox \<Rightarrow> string \<Rightarrow> string \<Rightarrow> world \<Rightarrow> (exn + unit) \<times> world" where
  "classifyAndRun rt sb taskId goal w =
     (case classifyTask rt goal (model w) of
        (classification, l') \<Rightarrow>
          let w1 = send (Classification (cls_type classification) (template classification)
                           (confidence classification) (reason classification))
                     (w\<lparr>model := l'\<rparr>);
              cd = \<lparr>conversationHistory = []\<rparr>
          in if cls_type classification = Code then
               runCodeGeneration rt sb taskId goal
                 (case template classification of Some t \<Rightarrow> t | None \<Rightarrow> Html) cd w1
             else runResearch rt taskId goal w1)"

definition onMessage ::
  "runtime \<Rightarrow> (string \<Rightarrow> exn + json) \<Rightarrow> string option \<Rightarrow> sandbox \<Rightarrow> string \<Rightarrow> string \<Rightarrow> world
     \<Rightarrow> world" where
  "onMessage rt parse apiKey sb taskId frame w =
     (case parse frame of
        Inl e \<Rightarrow> send (Error e) w
      | Inr JNull \<Rightarrow> send (Error ''Cannot destructure property goal of data as it is null.'') w
      | Inr data \<Rightarrow>
          let goal = property data ''goal''
          in if falsy goal then send (Error ''Goal is required'') w
             else if apiKey = None \<or> apiKey = Some [] then
               send (Error ''DEEPSEEK_API_KEY not configured'') w
             else
               (case goal of
                  Some (JStr g) \<Rightarrow>
                    (case classifyAndRun rt sb taskId g w of
                       (Inl e, w') \<Rightarrow> send (Error e) w'
                     | (Inr u, w') \<Rightarrow> w')
                | _ \<Rightarrow> send (Error ''goal.toLowerCase is not a function'') w))"

text \<open>The events of a session: one start message on a fresh connection.\<close>

definition session ::
  "runtime \<Rightarrow> (string \<Rightarrow> exn + json) \<Rightarrow> string option \<Rightarrow> sandbox \<Rightarrow> string \<Rightarrow> string \<Rightarrow> llm
     \<Rightarrow> filesystem \<Rightarrow> event list" where
  "session rt parse apiKey sb taskId frame l fs =
     events (onMessage rt parse apiKey sb taskId frame \<lparr>events = [], model = l, disk = fs\<rparr>)"

section \<open>Concrete inputs for the examples\<close>

definition asciiLowerCase :: "string \<Rightarrow> string" where
  "asciiLowerCase s =
     map (\<lambda>c. if 65 \<le> (of_char c :: nat) \<and> (of_char c :: nat) \<le> 90
              then char_of (of_char c + (32 :: nat)) else c) s"

definition rejectAll :: "string \<Rightarrow> exn + 'a" where
  "rejectAll s = Inl ''Unexpected token''"

definition exampleRuntime :: runtime where
  "exampleRuntime =
     \<lparr>toLowerCase = asciiLowerCase, parseClassification = rejectAll,
      parsePlan = rejectAll, parseSteps = rejectAll\<rparr>"

definition proseReplies :: "nat \<Rightarrow> llm_reply" where
  "proseReplies n = Completes [''Sure, '', [], ''here it is'']"

definition exampleModel :: llm where
  "exampleModel = \<lparr>replies = proseReplies, requests = []\<rparr>"

definition exampleSandbox :: sandbox where
  "exampleSandbox = \<lparr>workspaceDir = ''/ws''\<rparr>"

text \<open>A disk that reports directories after the files beside them.\<close>

definition filesFirst :: "location \<Rightarrow> nat" where
  "filesFirst l = (if l \<noteq> [] \<and> (last l = ''src'' \<or> last l = ''public'') then 1 else 0)"

definition exampleDisk :: filesystem where
  "exampleDisk =
     \<lparr>tree = Dir [(''ws'', Dir [(''demo'', Dir [(''old.txt'', File ''stale'')])])],
      cwd = [], rank = filesFirst\<rparr>"

definition exampleWorld :: world where
  "exampleWorld = \<lparr>events = [], model = exampleModel, disk = exampleDisk\<rparr>"

definition parseEmptyObject :: "string \<Rightarrow> exn + json" where
  "parseEmptyObject s = Inr (JObj [])"

definition parseGoalOnly :: "string \<Rightarrow> exn + json" where
  "parseGoalOnly s = Inr (JObj [(''goal'', JStr s)])"

definition sleepTooLong :: "string \<Rightarrow> string \<Rightarrow> nat \<Rightarrow> process_outcome" where
  "sleepTooLong command dir timeout = TimedOut [] []"

definition exampleCoder :: coder where
  "exampleCoder = \<lparr>conversationHistory = []\<rparr>"

definition fiveFiles :: "file_spec list" where
  "fiveFiles =
     [\<lparr>path = ''index.html'', description = ''page''\<rparr>,
      \<lparr>path = ''style.css'', description = ''styles''\<rparr>,
      \<lparr>path = ''cart.js'', description = ''cart''\<rparr>,
      \<lparr>path = ''api.js'', description = ''requests''\<rparr>,
      \<lparr>path = ''README.md'', description = ''notes''\<rparr>]"

definition gappedFiles :: "file_spec list" where
  "gappedFiles =
     [\<lparr>path = ''index.html'', description = ''page''\<rparr>,
      \<lparr>path = [], description = ''nameless''\<rparr>,
      \<lparr>path = ''app.js'', description = ''logic''\<rparr>]"

text \<open>A project initialised, edited, and initialised again.\<close>

definition firstInit :: "(exn + project_info) \<times> filesystem" where
  "firstInit = initProject exampleSandbox ''demo'' Node exampleDisk"

definition edited :: filesystem where
  "edited = snd (writeProjectFile exampleSandbox ''demo'' ''notes.txt'' ''draft'' (snd firstInit))"

definition secondInit :: "(exn + project_info) \<times> filesystem" where
  "secondInit = initProject exampleSandbox ''demo'' Node edited"

text \<open>
  A project initialised, a file written through a path that leaves the project
  directory, and the project initialised again.
\<close>

definition escaped :: filesystem where
  "escaped = snd (writeProjectFile exampleSandbox ''demo'' ''../kept.txt'' ''draft'' (snd firstInit))"

definition thirdInit :: "(exn + project_info) \<times> filesystem" where
  "thirdInit = initProject exampleSandbox ''demo'' Node escaped"

section \<open>Reading an event stream\<close>

text \<open>
  The order of the file events of a stream is checked by an automaton. Its state is the
  file being streamed, with the text of the fragments sent for it so far, or nothing
  between two files. A fragment or a completion is accepted only for the file being
  streamed, a completion only with the whole text, a start only between two files.
\<close>

fun order_step :: "(string \<times> string) option \<Rightarrow> event \<Rightarrow> (string \<times> string) option option" where
  "order_step None (FileStart f) = Some (Some (f, []))"
| "order_step None (FileChunk f c) = None"
| "order_step None (FileComplete f t) = None"
| "order_step (Some (g, acc)) (FileStart f) = None"
| "order_step (Some (g, acc)) (FileChunk f c) = (if f = g then Some (Some (g, acc @ c)) else None)"
| "order_step (Some (g, acc)) (FileComplete f t) = (if f = g \<and> t = acc then Some None else None)"
| "order_step s e = Some s"

fun order_run :: "(string \<times> string) option \<Rightarrow> event list \<Rightarrow> (string \<times> string) option option" where
  "order_run s [] = Some s"
| "order_run s (e # es) = (case order_step s e of None \<Rightarrow> None | Some s' \<Rightarrow> order_run s' es)"

definition file_events_ordered :: "event list \<Rightarrow> bool" where
  "file_events_ordered es = (order_run None es \<noteq> None)"

text \<open>The progress values of a stream, and the value that follows the start of each file.\<close>

fun progress_values :: "event list \<Rightarrow> int list" where
  "progress_values [] = []"
| "progress_values (Progress v # es) = v # progress_values es"
| "progress_values (e # es) = progress_values es"

fun file_progress :: "event list \<Rightarrow> (string \<times> int) list" where
  "file_progress [] = []"
| "file_progress (FileStart f # Progress v # es) = (f, v) # file_progress es"
| "file_progress (e # es) = file_progress es"

text \<open>The files an event stream names, in a start, a fragment or a completion.\<close>

fun named_file :: "event \<Rightarrow> string option" where
  "named_file (FileStart f) = Some f"
| "named_file (FileChunk f c) = Some f"
| "named_file (FileComplete f t) = Some f"
| "named_file e = None"

text \<open>
  What the loop over the files can emit, from index \<open>i\<close> on: nothing for a file with an
  empty path; for any other file its start, its progress value, a step, its fragments
  and, unless the generation or the write has failed and ended the loop, its completion
  and a step. The flag tells whether the loop has reached the end of the list.
\<close>

inductive loop_trace :: "nat \<Rightarrow> nat \<Rightarrow> file_spec list \<Rightarrow> event list \<Rightarrow> bool \<Rightarrow> bool" where
  trace_end: "loop_trace tot i [] [] True"
| trace_skip: "path f = [] \<Longrightarrow> loop_trace tot (Suc i) rest es ok
     \<Longrightarrow> loop_trace tot i (f # rest) es ok"
| trace_fail: "path f \<noteq> []
     \<Longrightarrow> loop_trace tot i (f # rest)
           ([FileStart (path f), Progress (overallProgress i tot),
             Step (''Generating '' @ path f) ''running'']
            @ map (FileChunk (path f)) chunks) False"
| trace_file: "path f \<noteq> [] \<Longrightarrow> loop_trace tot (Suc i) rest es ok
     \<Longrightarrow> loop_trace tot i (f # rest)
           ([FileStart (path f), Progress (overallProgress i tot),
             Step (''Generating '' @ path f) ''running'']
            @ map (FileChunk (path f)) chunks
            @ [FileComplete (path f) (concat chunks), Step (''Generated '' @ path f) ''done'']
            @ es) ok"

text \<open>The progress values the plan calls for: one for each file with a path, computed
  from its position in the whole list.\<close>

fun expected_progress :: "nat \<Rightarrow> nat \<Rightarrow> file_spec list \<Rightarrow> (string \<times> int) list" where
  "expected_progress tot i [] = []"
| "expected_progress tot i (f # rest) =
     (if path f = [] then [] else [(path f, overallProgress i tot)])
     @ expected_progress tot (Suc i) rest"

text \<open>A location is inside a directory when it is the directory or lies below it.\<close>

definition inside :: "location \<Rightarrow> location \<Rightarrow> bool" where
  "inside dir p = (take (length dir) p = dir)"

text \<open>A segment that names an entry, and the location from which a path name is resolved.\<close>

definition proper :: "string \<Rightarrow> bool" where
  "proper seg = (seg \<noteq> [] \<and> seg \<noteq> ''.'')"

definition base_of :: "filesystem \<Rightarrow> string \<Rightarrow> location" where
  "base_of fs p = (if p \<noteq> [] \<and> hd p = CHR ''/'' then [] else cwd fs)"

text \<open>The content of the file at a location, if there is a file.\<close>

definition file_at :: "node \<Rightarrow> location \<Rightarrow> string option" where
  "file_at n q = (case lookup n q of Some (File c) \<Rightarrow> Some c | _ \<Rightarrow> None)"

text \<open>
  The project directory a template calls for, given the path name of the project: the
  entries in the order in which \<open>initProject\<close> creates them.
\<close>

definition template_entries :: "project_template \<Rightarrow> string \<Rightarrow> (string \<times> node) list" where
  "template_entries t projectPath =
     (case t of
        Html \<Rightarrow>
          [(''index.html'', File html_indexHtml),
           (''style.css'', File html_styleCss),
           (''script.js'', File html_scriptJs)]
      | ViteReact \<Rightarrow>
          [(''src'', Dir [(''main.jsx'', File react_mainJsx),
                         (''App.jsx'', File react_appJsx),
                         (''index.css'', File react_indexCss)]),
           (''public'', Dir []),
           (''package.json'', File (react_packageJson projectPath)),
           (''vite.config.js'', File react_viteConfig),
           (''index.html'', File react_indexHtml)]
      | ViteVue \<Rightarrow>
          [(''src'', Dir [(''main.js'', File vue_mainJs),
                         (''App.vue'', File vue_appVue),
                         (''style.css'', File vue_styleCss)]),
           (''package.json'', File (vue_packageJson projectPath)),
           (''vite.config.js'', File vue_viteConfig),
           (''index.html'', File vue_indexHtml)]
      | Node \<Rightarrow>
          [(''src'', Dir [(''index.js'', File node_indexJs)]),
           (''package.json'', File (node_packageJson projectPath))]
      | Python \<Rightarrow>
          [(''main.py'', File python_mainPy),
           (''requirements.txt'', File [])])"

text \<open>
  What a listing of the project holds after \<open>initProject\<close>: every file of the template
  with its path relative to the project directory and its size in bytes, and every
  directory of the template. The order of a listing is that of \<open>readdir\<close>; this list
  fixes the members only.
\<close>

definition listed_file :: "string \<Rightarrow> string \<Rightarrow> file_info" where
  "listed_file p c = \<lparr>info_path = p, info_type = TFile, file_size = Some (length c)\<rparr>"

definition listed_directory :: "string \<Rightarrow> file_info" where
  "listed_directory p = \<lparr>info_path = p, info_type = TDirectory, file_size = None\<rparr>"

definition template_listing :: "project_template \<Rightarrow> string \<Rightarrow> file_info list" where
  "template_listing t projectPath =
     (case t of
        Html \<Rightarrow>
          [listed_file ''index.html'' html_indexHtml,
           listed_file ''style.css'' html_styleCss,
           listed_file ''script.js'' html_scriptJs]
      | ViteReact \<Rightarrow>
          [listed_file ''index.html'' react_indexHtml,
           listed_file ''package.json'' (react_packageJson projectPath),
           listed_directory ''public'',
           listed_directory ''src'',
           listed_file ''src/App.jsx'' react_appJsx,
           listed_file ''src/index.css'' react_indexCss,
           listed_file ''src/main.jsx'' react_mainJsx,
           listed_file ''vite.config.js'' react_viteConfig]
      | ViteVue \<Rightarrow>
          [listed_file ''index.html'' vue_indexHtml,
           listed_file ''package.json'' (vue_packageJson projectPath),
           listed_directory ''src'',
           listed_file ''src/App.vue'' vue_appVue,
           listed_file ''src/main.js'' vue_mainJs,
           listed_file ''src/style.css'' vue_styleCss,
           listed_file ''vite.config.js'' vue_viteConfig]
      | Node \<Rightarrow>
          [listed_file ''package.json'' (node_packageJson projectPath),
           listed_directory ''src'',
           listed_file ''src/index.js'' node_indexJs]
      | Python \<Rightarrow>
          [listed_file ''main.py'' python_mainPy,
           listed_file ''requirements.txt'' []])"

text \<open>An operation on the project directory alone, named by the location below it.\<close>

datatype local_op = MakeDir location | WriteAt location string

fun local_run :: "local_op list \<Rightarrow> node \<Rightarrow> exn + node" where
  "local_run [] d = Inr d"
| "local_run (MakeDir r # ops) d =
     (case mkdirp_at r d of Inl e \<Rightarrow> Inl e | Inr d' \<Rightarrow> local_run ops d')"
| "local_run (WriteAt r txt # ops) d =
     (case writeFile_at r txt d of Inl e \<Rightarrow> Inl e | Inr d' \<Rightarrow> local_run ops d')"

definition template_ops :: "project_template \<Rightarrow> string \<Rightarrow> local_op list" where
  "template_ops t projectPath =
     (case t of
        Html \<Rightarrow>
          [WriteAt [''index.html''] html_indexHtml,
           WriteAt [''style.css''] html_styleCss,
           WriteAt [''script.js''] html_scriptJs]
      | ViteReact \<Rightarrow>
          [MakeDir [''src''], MakeDir [''public''],
           WriteAt [''package.json''] (react_packageJson projectPath),
           WriteAt [''vite.config.js''] react_viteConfig,
           WriteAt [''index.html''] react_indexHtml,
           WriteAt [''src'', ''main.jsx''] react_mainJsx,
           WriteAt [''src'', ''App.jsx''] react_appJsx,
           WriteAt [''src'', ''index.css''] react_indexCss]
      | ViteVue \<Rightarrow>
          [MakeDir [''src''],
           WriteAt [''package.json''] (vue_packageJson projectPath),
           WriteAt [''vite.config.js''] vue_viteConfig,
           WriteAt [''index.html''] vue_indexHtml,
           WriteAt [''src'', ''main.js''] vue_mainJs,
           WriteAt [''src'', ''App.vue''] vue_appVue,
           WriteAt [''src'', ''style.css''] vue_styleCss]
      | Node \<Rightarrow>
          [MakeDir [''src''],
           WriteAt [''package.json''] (node_packageJson projectPath),
           WriteAt [''src'', ''index.js''] node_indexJs]
      | Python \<Rightarrow>
          [WriteAt [''main.py''] python_mainPy,
           WriteAt [''requirements.txt''] []])"

text \<open>
  An operation by path name is focused on a directory when, run with success on a disk
  that has this directory, it does there what the local operation does.
\<close>

definition focused ::
  "location \<Rightarrow> location \<Rightarrow> (filesystem \<Rightarrow> (exn + unit) \<times> filesystem) \<Rightarrow> local_op \<Rightarrow> bool" where
  "focused P c f g =
     (\<forall>fs d u fs'. cwd fs = c \<and> lookup (tree fs) P = Some d \<and> f fs = (Inr u, fs') \<longrightarrow>
        (\<exists>d'. local_run [g] d = Inr d' \<and> lookup (tree fs') P = Some d' \<and> cwd fs' = c))"

text \<open>
  The other direction: an operation by path name is enabled on a directory when it
  succeeds wherever the local operation does. No proper ancestor of a location is a file:
\<close>

definition enabled ::
  "location \<Rightarrow> location \<Rightarrow> (filesystem \<Rightarrow> (exn + unit) \<times> filesystem) \<Rightarrow> local_op \<Rightarrow> bool" where
  "enabled P c f g =
     (\<forall>fs d d'. cwd fs = c \<and> lookup (tree fs) P = Some d \<and> local_run [g] d = Inr d' \<longrightarrow>
        (\<exists>fs'. f fs = (Inr (), fs')))"

definition ancestors_clear :: "node \<Rightarrow> location \<Rightarrow> bool" where
  "ancestors_clear n P = list_all (\<lambda>k. file_at n (take k P) = None) [0..<length P]"

section \<open>The classifier\<close>

text \<open>
  Claim C3. A goal with at least one implementation keyword and no information keyword is
  classified as \<open>code\<close>, with confidence \<open>min(1, codeScore / 3)\<close>, where \<open>codeScore\<close> counts
  the implementation keywords that occur in the lower-cased goal. No request goes to the
  model.
\<close>

theorem classify_code_only:
  assumes "1 \<le> codeScore rt goal" and "researchScore rt goal = 0"
  shows "classifyTask rt goal l =
           (\<lparr>cls_type = Code,
             template = Some (selectTemplate (toLowerCase rt goal)),
             confidence = min 1 (of_nat (codeScore rt goal) / 3),
             reason = ''Detected code-related keywords (score: '' @ show_nat (codeScore rt goal)
                        @ '' vs '' @ show_nat (researchScore rt goal) @ '')''\<rparr>, l)"
  using assms by (simp add: classifyTask_def codeScore_def researchScore_def Let_def)

theorem classify_code_only_witness:
  "1 \<le> codeScore exampleRuntime ''Make a snake GAME''
   \<and> researchScore exampleRuntime ''Make a snake GAME'' = 0
   \<and> classifyTask exampleRuntime ''Make a snake GAME'' exampleModel =
       (\<lparr>cls_type = Code, template = Some Html, confidence = 2 / 3,
         reason = ''Detected code-related keywords (score: 2 vs 0)''\<rparr>, exampleModel)"
proof -
  have c: "codeScore exampleRuntime ''Make a snake GAME'' = 2" by code_simp
  have r: "researchScore exampleRuntime ''Make a snake GAME'' = 0" by code_simp
  have t: "selectTemplate (toLowerCase exampleRuntime ''Make a snake GAME'') = Html"
    by code_simp
  have n: "show_nat 2 = ''2''" "show_nat 0 = ''0''" by code_simp+
  show ?thesis
    using classify_code_only [of exampleRuntime "''Make a snake GAME''" exampleModel]
    by (simp add: c r t n)
qed

text \<open>
  Claim C9. When the two scores are equal and not zero, the goal is classified as
  \<open>research\<close> with confidence \<open>min(1, researchScore / 3)\<close> and no template, and the model
  is left as it was: the classifier has sent it no request.
\<close>

theorem classify_tie:
  assumes "codeScore rt goal = researchScore rt goal" and "researchScore rt goal \<noteq> 0"
  shows "classifyTask rt goal l =
           (\<lparr>cls_type = Research, template = None,
             confidence = min 1 (of_nat (researchScore rt goal) / 3),
             reason = ''Detected research-related keywords (score: ''
                        @ show_nat (researchScore rt goal)
                        @ '' vs '' @ show_nat (codeScore rt goal) @ '')''\<rparr>, l)"
  using assms by (simp add: classifyTask_def codeScore_def researchScore_def Let_def)

theorem classify_tie_witness:
  "codeScore exampleRuntime ''build and explain'' = researchScore exampleRuntime ''build and explain''
   \<and> researchScore exampleRuntime ''build and explain'' \<noteq> 0
   \<and> classifyTask exampleRuntime ''build and explain'' exampleModel =
       (\<lparr>cls_type = Research, template = None, confidence = 1 / 3,
         reason = ''Detected research-related keywords (score: 1 vs 1)''\<rparr>, exampleModel)"
proof -
  have c: "codeScore exampleRuntime ''build and explain'' = 1" by code_simp
  have r: "researchScore exampleRuntime ''build and explain'' = 1" by code_simp
  have "show_nat 1 = ''1''" by code_simp
  then have n: "show_nat (Suc 0) = ''1''" by simp
  show ?thesis
    using classify_tie [of exampleRuntime "''build and explain''" exampleModel]
    by (simp add: c r n)
qed

section \<open>The project planner\<close>

text \<open>
  Claim C4. When the request to the model fails, or its answer (taken out of its code
  fence) does not parse, \<open>analyzeTask\<close> does not raise: it returns the fallback plan, whose
  project is \<open>monus_project\<close> and whose files are \<open>index.html\<close>, \<open>style.css\<close>, \<open>script.js\<close>
  in this order, whatever the template.
\<close>

theorem analyzeTask_fallback:
  assumes "(\<exists>cs e. next_reply l = Fails cs e)
           \<or> (\<exists>cs e. next_reply l = Completes cs \<and> parsePlan rt (extract_json (concat cs)) = Inl e)"
  shows "fst (analyzeTask rt goal tmpl l) = Inr (fallbackPlan goal)
         \<and> projectName (fallbackPlan goal) = ''monus_project''
         \<and> map path (files (fallbackPlan goal)) = [''index.html'', ''style.css'', ''script.js'']"
  using assms
  by (auto simp add: analyzeTask_def chatJSON_def chat_def fallbackPlan_def)

theorem analyzeTask_fallback_witness:
  "((\<exists>cs e. next_reply exampleModel = Fails cs e)
     \<or> (\<exists>cs e. next_reply exampleModel = Completes cs
               \<and> parsePlan exampleRuntime (extract_json (concat cs)) = Inl e))
   \<and> fst (analyzeTask exampleRuntime ''a shop'' Python exampleModel) = Inr (fallbackPlan ''a shop'')
   \<and> projectName (fallbackPlan ''a shop'') = ''monus_project''
   \<and> map path (files (fallbackPlan ''a shop'')) = [''index.html'', ''style.css'', ''script.js'']"
proof -
  have h: "(\<exists>cs e. next_reply exampleModel = Fails cs e)
     \<or> (\<exists>cs e. next_reply exampleModel = Completes cs
               \<and> parsePlan exampleRuntime (extract_json (concat cs)) = Inl e)"
    by (simp add: next_reply_def exampleModel_def proseReplies_def exampleRuntime_def rejectAll_def)
  from analyzeTask_fallback [OF h, of "''a shop''" Python] h show ?thesis by blast
qed

section \<open>Running a command in the sandbox\<close>

text \<open>
  Claim C6. \<open>runCommand\<close> always returns a result and never raises. The result reports
  success exactly when the project exists and the command has exited with code 0; a
  result that reports failure, as after a timeout or an exit code other than 0, carries a
  code other than 0.
\<close>

theorem runCommand_structured:
  "\<exists>r. runCommand exec sb project command timeout fs = Inr r
       \<and> (success r \<longleftrightarrow>
            exists_path (join [workspaceDir sb, project]) fs
            \<and> (\<exists>out err. exec command (join [workspaceDir sb, project]) timeout = Exited 0 out err))
       \<and> (\<not> success r \<longrightarrow> code r \<noteq> NumCode 0)"
  by (cases "exec command (join [workspaceDir sb, project]) timeout")
     (auto simp add: runCommand_def execAsync_def Let_def split: option.splits)

theorem runCommand_structured_witness:
  "\<exists>r. runCommand sleepTooLong exampleSandbox ''demo'' ''sleep 100'' 1000 exampleDisk = Inr r
       \<and> \<not> success r \<and> code r \<noteq> NumCode 0"
  using runCommand_structured [of sleepTooLong exampleSandbox "''demo''" "''sleep 100''" 1000 exampleDisk]
  by (auto simp add: sleepTooLong_def)

section \<open>The loop over the files of the plan\<close>

subsection \<open>One iteration\<close>


lemma events_send [simp]: "events (send e w) = events w @ [e]"
  and model_send [simp]: "model (send e w) = model w"
  and disk_send [simp]: "disk (send e w) = disk w"
  by (simp_all add: send_def)

lemma send_chunks:
  "foldl (\<lambda>w chunk. send (FileChunk p chunk) w) w cs = w\<lparr>events := events w @ map (FileChunk p) cs\<rparr>"
  by (induction cs arbitrary: w) (simp_all add: send_def)

lemma send_chunks':
  "foldl (\<lambda>w chunk. w\<lparr>events := events w @ [FileChunk p chunk]\<rparr>) w cs
     = w\<lparr>events := events w @ map (FileChunk p) cs\<rparr>"
  by (induction cs arbitrary: w) simp_all

lemma generateFiles_skip:
  "path f = [] \<Longrightarrow>
   generateFiles sb goal pn tot i (f # rest) ex cd w
     = generateFiles sb goal pn tot (Suc i) rest ex cd w"
  by simp

lemma generateFiles_failure:
  assumes "path f \<noteq> []"
    and "generateFile goal (path f) (description f) ex cd (model w) = ((chunks, Some e), cd', l')"
  shows "generateFiles sb goal pn tot i (f # rest) ex cd w =
           (Inl e, w\<lparr>events := events w
                       @ [FileStart (path f), Progress (overallProgress i tot),
                          Step (''Generating '' @ path f) ''running'']
                       @ map (FileChunk (path f)) chunks,
                     model := l'\<rparr>)"
  using assms by (cases w) (simp add: Let_def send_chunks' send_def)

lemma generateFiles_write_failure:
  assumes "path f \<noteq> []"
    and "generateFile goal (path f) (description f) ex cd (model w) = ((chunks, None), cd', l')"
    and "writeProjectFile sb pn (path f) (concat chunks) (disk w) = (Inl e, d')"
  shows "generateFiles sb goal pn tot i (f # rest) ex cd w =
           (Inl e, w\<lparr>events := events w
                       @ [FileStart (path f), Progress (overallProgress i tot),
                          Step (''Generating '' @ path f) ''running'']
                       @ map (FileChunk (path f)) chunks,
                     model := l', disk := d'\<rparr>)"
  using assms by (cases w) (simp add: Let_def send_chunks' send_def)

lemma generateFiles_written:
  assumes "path f \<noteq> []"
    and "generateFile goal (path f) (description f) ex cd (model w) = ((chunks, None), cd', l')"
    and "writeProjectFile sb pn (path f) (concat chunks) (disk w) = (Inr u, d')"
  shows "generateFiles sb goal pn tot i (f # rest) ex cd w =
           generateFiles sb goal pn tot (Suc i) rest
             (set_entry (path f) (concat chunks) ex) cd'
             (w\<lparr>events := events w
                   @ [FileStart (path f), Progress (overallProgress i tot),
                      Step (''Generating '' @ path f) ''running'']
                   @ map (FileChunk (path f)) chunks
                   @ [FileComplete (path f) (concat chunks),
                      Step (''Generated '' @ path f) ''done''],
                 model := l', disk := d'\<rparr>)"
  using assms by (cases w) (simp add: Let_def send_chunks' send_def)

lemma generateFiles_trace:
  "\<exists>es. events (snd (generateFiles sb goal pn tot i fs ex cd w)) = events w @ es
        \<and> loop_trace tot i fs es (\<not> isl (fst (generateFiles sb goal pn tot i fs ex cd w)))"
proof (induction fs arbitrary: i ex cd w)
  case Nil
  show ?case by (simp add: trace_end)
next
  case (Cons f rest)
  show ?case
  proof (cases "path f = []")
    case True
    from Cons.IH [of "Suc i" ex cd w] obtain es where
      "events (snd (generateFiles sb goal pn tot (Suc i) rest ex cd w)) = events w @ es"
      "loop_trace tot (Suc i) rest es
         (\<not> isl (fst (generateFiles sb goal pn tot (Suc i) rest ex cd w)))"
      by blast
    with True show ?thesis
      by (auto simp only: generateFiles_skip [OF True] intro: trace_skip)
  next
    case False
    obtain chunks failure cd' l' where
      g: "generateFile goal (path f) (description f) ex cd (model w) = ((chunks, failure), cd', l')"
      by (metis prod.exhaust)
    show ?thesis
    proof (cases failure)
      case (Some e)
      show ?thesis
        using trace_fail [OF False, of tot i rest chunks]
        by (simp only: generateFiles_failure [OF False g [unfolded Some]]) simp
    next
      case None
      note g' = g [unfolded None]
      obtain r d' where wr: "writeProjectFile sb pn (path f) (concat chunks) (disk w) = (r, d')"
        by (metis prod.exhaust)
      show ?thesis
      proof (cases r)
        case (Inl e)
        show ?thesis
          using trace_fail [OF False, of tot i rest chunks]
          by (simp only: generateFiles_write_failure [OF False g' wr [unfolded Inl]]) simp
      next
        case (Inr u)
        let ?w = "w\<lparr>events := events w
                   @ [FileStart (path f), Progress (overallProgress i tot),
                      Step (''Generating '' @ path f) ''running'']
                   @ map (FileChunk (path f)) chunks
                   @ [FileComplete (path f) (concat chunks),
                      Step (''Generated '' @ path f) ''done''],
                 model := l', disk := d'\<rparr>"
        let ?R = "generateFiles sb goal pn tot (Suc i) rest
             (set_entry (path f) (concat chunks) ex) cd' ?w"
        from Cons.IH [of "Suc i" "set_entry (path f) (concat chunks) ex" cd' ?w]
        obtain es where es: "events (snd ?R) = events ?w @ es"
          "loop_trace tot (Suc i) rest es (\<not> isl (fst ?R))"
          by blast
        have eq: "generateFiles sb goal pn tot i (f # rest) ex cd w = ?R"
          by (rule generateFiles_written [OF False g' wr [unfolded Inr]])
        show ?thesis
          using es trace_file [OF False es(2), of chunks]
          by (simp only: eq) simp
      qed
    qed
  qed
qed


subsection \<open>The order of the file events in a trace\<close>

lemma order_run_append:
  "order_run s (xs @ ys) = (case order_run s xs of None \<Rightarrow> None | Some s' \<Rightarrow> order_run s' ys)"
  by (induction xs arbitrary: s) (simp_all split: option.splits)

lemma order_run_chunks:
  "order_run (Some (p, acc)) (map (FileChunk p) cs) = Some (Some (p, acc @ concat cs))"
  by (induction cs arbitrary: acc) simp_all

lemma loop_trace_ordered:
  "loop_trace tot i fs es ok \<Longrightarrow>
     order_run None es \<noteq> None \<and> (ok \<longrightarrow> order_run None es = Some None)"
proof (induction rule: loop_trace.induct)
  case (trace_end tot i)
  show ?case by simp
next
  case (trace_skip f tot i rest es ok)
  then show ?case by simp
next
  case (trace_fail f tot i rest chunks)
  show ?case by (simp add: order_run_chunks)
next
  case (trace_file f tot i rest es ok chunks)
  then show ?case by (simp add: order_run_append order_run_chunks)
qed

subsection \<open>The progress values of a trace\<close>

lemma file_progress_chunks:
  "file_progress (map (FileChunk p) cs @ FileComplete p t # Step a b # es) = file_progress es"
  by (induction cs) simp_all

lemma file_progress_chunks_only: "file_progress (map (FileChunk p) cs) = []"
  by (induction cs) simp_all

lemma loop_trace_file_progress:
  "loop_trace tot i fs es ok \<Longrightarrow>
     (\<exists>k. file_progress es = take k (expected_progress tot i fs))
     \<and> (ok \<longrightarrow> file_progress es = expected_progress tot i fs)"
proof (induction rule: loop_trace.induct)
  case (trace_end tot i)
  show ?case by simp
next
  case (trace_skip f tot i rest es ok)
  then show ?case by simp
next
  case (trace_fail f tot i rest chunks)
  have "file_progress ([FileStart (path f), Progress (overallProgress i tot),
             Step (''Generating '' @ path f) ''running'']
            @ map (FileChunk (path f)) chunks) = take 1 (expected_progress tot i (f # rest))"
    using trace_fail by (simp add: file_progress_chunks_only)
  then show ?case by blast
next
  case (trace_file f tot i rest es ok chunks)
  then obtain k where k: "file_progress es = take k (expected_progress tot (Suc i) rest)"
    by blast
  have ex: "expected_progress tot i (f # rest)
              = (path f, overallProgress i tot) # expected_progress tot (Suc i) rest"
    using trace_file.hyps(1) by simp
  have fp: "file_progress ([FileStart (path f), Progress (overallProgress i tot),
             Step (''Generating '' @ path f) ''running'']
            @ map (FileChunk (path f)) chunks
            @ [FileComplete (path f) (concat chunks), Step (''Generated '' @ path f) ''done'']
            @ es) = (path f, overallProgress i tot) # file_progress es"
    by (simp add: file_progress_chunks)
  have "(path f, overallProgress i tot) # file_progress es
          = take (Suc k) (expected_progress tot i (f # rest))"
    by (simp only: ex k take_Suc_Cons)
  moreover have "ok \<longrightarrow> (path f, overallProgress i tot) # file_progress es
          = expected_progress tot i (f # rest)"
    using trace_file.IH by (simp only: ex) simp
  ultimately show ?case by (simp only: fp) blast
qed

lemma progress_values_chunks:
  "progress_values (map (FileChunk p) cs @ es) = progress_values es"
  by (induction cs) simp_all

lemma loop_trace_progress_values:
  "loop_trace tot i fs es ok \<Longrightarrow> ok \<Longrightarrow>
     progress_values es = map snd (expected_progress tot i fs)"
proof (induction rule: loop_trace.induct)
  case (trace_file f tot i rest es ok chunks)
  then show ?case by (simp add: progress_values_chunks)
qed simp_all

lemma loop_trace_named:
  "loop_trace tot i fs es ok \<Longrightarrow> \<forall>e \<in> set es. named_file e \<noteq> Some []"
  by (induction rule: loop_trace.induct) auto

lemma expected_progress_indices:
  "expected_progress tot k fs =
     map (\<lambda>i. (path (fs ! i), overallProgress (k + i) tot))
       (filter (\<lambda>i. path (fs ! i) \<noteq> []) [0..<length fs])"
proof (induction fs arbitrary: k)
  case Nil
  show ?case by simp
next
  case (Cons f rest)
  have upt: "[0..<length (f # rest)] = 0 # map Suc [0..<length rest]"
    by (simp add: upt_conv_Cons map_Suc_upt del: upt_Suc)
  show ?case
    by (simp only: upt) (simp add: Cons.IH [of "Suc k"] filter_map o_def)
qed


subsection \<open>The events of a whole session\<close>

lemma runCodeGeneration_ordered:
  "\<exists>es. events (snd (runCodeGeneration rt sb taskId goal tmpl cd w)) = events w @ es
        \<and> order_run None es \<noteq> None"
proof -
  let ?w1 = "send (Progress 5) (send (Phase ''planning'') w)"
  obtain r l' where a: "analyzeTask rt goal tmpl (model ?w1) = (r, l')"
    by (metis prod.exhaust)
  show ?thesis
  proof (cases r)
    case (Inl e)
    with a show ?thesis by (simp add: runCodeGeneration_def Let_def)
  next
    case (Inr plan)
    let ?w3 = "send (Step (''Creating project: '' @ projectName plan) ''running'')
                 (send (Progress 10) (?w1\<lparr>model := l'\<rparr>))"
    obtain r2 d' where i: "initProject sb (projectName plan) tmpl (disk ?w3) = (r2, d')"
      by (metis prod.exhaust)
    show ?thesis
    proof (cases r2)
      case (Inl e)
      with a Inr i show ?thesis by (simp add: runCodeGeneration_def Let_def)
    next
      case r2: (Inr initResult)
      let ?w5 = "send (Phase ''writing'')
                   (send (ProjectCreated (projectName plan) (project_files initResult))
                      (?w3\<lparr>disk := d'\<rparr>))"
      let ?G = "generateFiles sb goal (projectName plan) (length (files plan)) 0 (files plan)
                  [] cd ?w5"
      obtain es where es: "events (snd ?G) = events ?w5 @ es"
        "loop_trace (length (files plan)) 0 (files plan) es (\<not> isl (fst ?G))"
        using generateFiles_trace by blast
      from loop_trace_ordered [OF es(2)] have o: "order_run None es \<noteq> None"
        "\<not> isl (fst ?G) \<longrightarrow> order_run None es = Some None" by blast+
      obtain r3 w6 where g: "?G = (r3, w6)" by (metis prod.exhaust)
      show ?thesis
      proof (cases r3)
        case (Inl e)
        with a Inr i r2 g es(1) o(1) show ?thesis
          by (simp add: runCodeGeneration_def Let_def order_run_append)
      next
        case r3: (Inr existingFiles)
        with g o(2) have "order_run None es = Some None" by simp
        with a Inr i r2 g r3 es(1) show ?thesis
          by (simp add: runCodeGeneration_def Let_def order_run_append)
      qed
    qed
  qed
qed

lemma runResearch_ordered:
  "\<exists>es. events (snd (runResearch rt taskId goal w)) = events w @ es
        \<and> order_run None es \<noteq> None"
  by (simp add: runResearch_def Let_def split: prod.splits sum.splits)

lemma classifyAndRun_ordered:
  "\<exists>es. events (snd (classifyAndRun rt sb taskId goal w)) = events w @ es
        \<and> order_run None es \<noteq> None"
proof -
  obtain c l' where c: "classifyTask rt goal (model w) = (c, l')" by (metis prod.exhaust)
  let ?w1 = "send (Classification (cls_type c) (template c) (confidence c) (reason c))
               (w\<lparr>model := l'\<rparr>)"
  show ?thesis
  proof (cases "cls_type c = Code")
    case True
    from runCodeGeneration_ordered
      [of rt sb taskId goal "case template c of Some t \<Rightarrow> t | None \<Rightarrow> Html"
          "\<lparr>conversationHistory = []\<rparr>" ?w1]
    obtain es where "events (snd (runCodeGeneration rt sb taskId goal
        (case template c of Some t \<Rightarrow> t | None \<Rightarrow> Html) \<lparr>conversationHistory = []\<rparr> ?w1))
        = events ?w1 @ es" "order_run None es \<noteq> None" by blast
    with c True show ?thesis by (simp add: classifyAndRun_def Let_def)
  next
    case False
    from runResearch_ordered [of rt taskId goal ?w1]
    obtain es where "events (snd (runResearch rt taskId goal ?w1)) = events ?w1 @ es"
      "order_run None es \<noteq> None" by blast
    with c False show ?thesis by (simp add: classifyAndRun_def Let_def)
  qed
qed

lemma onMessage_ordered:
  "\<exists>es. events (onMessage rt parse apiKey sb taskId frame w) = events w @ es
        \<and> order_run None es \<noteq> None"
proof (cases "parse frame")
  case (Inl e)
  then show ?thesis by (simp add: onMessage_def)
next
  case (Inr data)
  show ?thesis
  proof (cases "\<exists>g. data \<noteq> JNull \<and> \<not> falsy (property data ''goal'')
                  \<and> \<not> (apiKey = None \<or> apiKey = Some []) \<and> property data ''goal'' = Some (JStr g)")
    case True
    then obtain g where g: "data \<noteq> JNull" "\<not> falsy (property data ''goal'')"
      "\<not> (apiKey = None \<or> apiKey = Some [])" "property data ''goal'' = Some (JStr g)" by blast
    obtain r w' where r: "classifyAndRun rt sb taskId g w = (r, w')" by (metis prod.exhaust)
    from classifyAndRun_ordered [of rt sb taskId g w] r obtain es where
      es: "events w' = events w @ es" "order_run None es \<noteq> None" by auto
    have "onMessage rt parse apiKey sb taskId frame w
            = (case r of Inl e \<Rightarrow> send (Error e) w' | Inr u \<Rightarrow> w')"
      using Inr g r by (cases data) (auto simp add: onMessage_def Let_def)
    with es show ?thesis
      by (cases r) (auto simp add: order_run_append)
  next
    case False
    have "\<exists>m. onMessage rt parse apiKey sb taskId frame w = send (Error m) w"
      using Inr False
      by (cases data; cases "property data ''goal''")
         (auto simp add: onMessage_def Let_def split: json.splits option.splits)
    then show ?thesis by auto
  qed
qed

lemma session_ordered: "file_events_ordered (session rt parse apiKey sb taskId frame l fs)"
  using onMessage_ordered [of rt parse apiKey sb taskId frame "\<lparr>events = [], model = l, disk = fs\<rparr>"]
  by (auto simp add: session_def file_events_ordered_def)

section \<open>The events of the code-writing phase\<close>

text \<open>
  Claim C2. In every run of the loop over the files of a plan, each file start is followed
  by the progress value \<open>10 + floor(((index + 1) / total_files) * 80)\<close> of the position of
  that file in the plan: the pairs of file and value that the stream shows are an initial
  part of the pairs the plan calls for, and all of them when the loop reaches its end. In
  a plan of five files the third file is paired with 58.
\<close>

theorem progress_for_each_file:
  "\<exists>es. events (snd (generateFiles sb goal pn (length fs) 0 fs [] cd w)) = events w @ es
        \<and> (\<exists>k. file_progress es =
                 take k (map (\<lambda>i. (path (fs ! i),
                                    10 + \<lfloor>(of_nat (i + 1) / of_nat (length fs)) * (80 :: rat)\<rfloor>))
                           (filter (\<lambda>i. path (fs ! i) \<noteq> []) [0..<length fs])))
        \<and> (\<not> isl (fst (generateFiles sb goal pn (length fs) 0 fs [] cd w)) \<longrightarrow>
             file_progress es =
               map (\<lambda>i. (path (fs ! i),
                          10 + \<lfloor>(of_nat (i + 1) / of_nat (length fs)) * (80 :: rat)\<rfloor>))
                 (filter (\<lambda>i. path (fs ! i) \<noteq> []) [0..<length fs])
             \<and> (length fs = 5 \<and> path (fs ! 2) \<noteq> [] \<longrightarrow>
                  (path (fs ! 2), 58) \<in> set (file_progress es)))"
proof -
  let ?G = "generateFiles sb goal pn (length fs) 0 fs [] cd w"
  let ?expected = "map (\<lambda>i. (path (fs ! i),
                          10 + \<lfloor>(of_nat (i + 1) / of_nat (length fs)) * (80 :: rat)\<rfloor>))
                 (filter (\<lambda>i. path (fs ! i) \<noteq> []) [0..<length fs])"
  obtain es where es: "events (snd ?G) = events w @ es"
    "loop_trace (length fs) 0 fs es (\<not> isl (fst ?G))"
    using generateFiles_trace by blast
  have ex: "expected_progress (length fs) 0 fs = ?expected"
    by (simp add: expected_progress_indices overallProgress_def)
  note lp = loop_trace_file_progress [OF es(2), unfolded ex]
  have p: "\<exists>k. file_progress es = take k ?expected"
    "\<not> isl (fst ?G) \<longrightarrow> file_progress es = ?expected"
    using lp by blast+
  have third: "length fs = 5 \<and> path (fs ! 2) \<noteq> [] \<longrightarrow> (path (fs ! 2), 58) \<in> set ?expected"
  proof (intro impI)
    assume a: "length fs = 5 \<and> path (fs ! 2) \<noteq> []"
    then have "(2::nat) \<in> set (filter (\<lambda>i. path (fs ! i) \<noteq> []) [0..<length fs])" by simp
    then have "(path (fs ! 2), 10 + \<lfloor>(of_nat (2 + 1) / of_nat (length fs)) * (80 :: rat)\<rfloor>)
                 \<in> set ?expected"
      unfolding set_map by (rule imageI)
    moreover have "10 + \<lfloor>(of_nat (2 + 1) / of_nat (length fs)) * (80 :: rat)\<rfloor> = 58"
      using a by simp
    ultimately show "(path (fs ! 2), 58) \<in> set ?expected" by simp
  qed
  show ?thesis
  proof (intro exI [of _ es] conjI impI)
    show "events (snd ?G) = events w @ es" by (rule es(1))
    show "\<exists>k. file_progress es = take k ?expected" by (rule p(1))
    assume ok: "\<not> isl (fst ?G)"
    with p(2) show fp: "file_progress es = ?expected" by blast
    assume "length fs = 5 \<and> path (fs ! 2) \<noteq> []"
    with third fp show "(path (fs ! 2), 58) \<in> set (file_progress es)" by simp
  qed
qed

theorem progress_for_each_file_witness:
  "\<not> isl (fst (generateFiles exampleSandbox ''a shop'' ''demo'' (length fiveFiles) 0 fiveFiles []
                   exampleCoder exampleWorld))
   \<and> length fiveFiles = 5 \<and> path (fiveFiles ! 2) \<noteq> []
   \<and> (path (fiveFiles ! 2), 58)
        \<in> set (file_progress (events (snd (generateFiles exampleSandbox ''a shop'' ''demo''
                  (length fiveFiles) 0 fiveFiles [] exampleCoder exampleWorld))))"
proof -
  let ?G = "generateFiles exampleSandbox ''a shop'' ''demo'' (length fiveFiles) 0 fiveFiles []
              exampleCoder exampleWorld"
  have ok: "\<not> isl (fst ?G)" by code_simp
  have five: "length fiveFiles = 5 \<and> path (fiveFiles ! 2) \<noteq> []" by code_simp
  have e: "events exampleWorld = []" by (simp add: exampleWorld_def)
  from progress_for_each_file [of exampleSandbox "''a shop''" "''demo''" fiveFiles exampleCoder
      exampleWorld]
  obtain es where "events (snd ?G) = events exampleWorld @ es"
    "\<not> isl (fst ?G) \<longrightarrow> (length fiveFiles = 5 \<and> path (fiveFiles ! 2) \<noteq> [] \<longrightarrow>
        (path (fiveFiles ! 2), 58) \<in> set (file_progress es))"
    by blast
  with ok five e show ?thesis by simp
qed

text \<open>
  Claim C10. A file of the plan whose path is empty is passed over: the loop goes on to
  the next index with the same events, model, disk and written files, and the same total.
  No file event of the stream names an empty path. When the loop reaches its end, the
  progress values it has emitted are those of the indices whose path is not empty, each
  computed with the length of the whole plan as denominator; the value of a skipped index
  is not among them.
\<close>

theorem empty_path_skipped:
  "(path f = [] \<longrightarrow>
      generateFiles sb goal pn tot i (f # rest) ex cd w
        = generateFiles sb goal pn tot (Suc i) rest ex cd w)
   \<and> (\<exists>es. events (snd (generateFiles sb goal pn (length fs) 0 fs [] cd w)) = events w @ es
          \<and> (\<forall>e \<in> set es. named_file e \<noteq> Some [])
          \<and> (\<not> isl (fst (generateFiles sb goal pn (length fs) 0 fs [] cd w)) \<longrightarrow>
               progress_values es =
                 map (\<lambda>i. overallProgress i (length fs))
                   (filter (\<lambda>i. path (fs ! i) \<noteq> []) [0..<length fs])))"
proof -
  let ?G = "generateFiles sb goal pn (length fs) 0 fs [] cd w"
  obtain es where es: "events (snd ?G) = events w @ es"
    "loop_trace (length fs) 0 fs es (\<not> isl (fst ?G))"
    using generateFiles_trace by blast
  have v: "\<not> isl (fst ?G) \<longrightarrow> progress_values es =
             map (\<lambda>i. overallProgress i (length fs))
               (filter (\<lambda>i. path (fs ! i) \<noteq> []) [0..<length fs])"
    using loop_trace_progress_values [OF es(2)]
    by (simp add: expected_progress_indices o_def)
  from es(1) loop_trace_named [OF es(2)] v
  have "\<exists>es. events (snd ?G) = events w @ es
          \<and> (\<forall>e \<in> set es. named_file e \<noteq> Some [])
          \<and> (\<not> isl (fst ?G) \<longrightarrow> progress_values es =
                 map (\<lambda>i. overallProgress i (length fs))
                   (filter (\<lambda>i. path (fs ! i) \<noteq> []) [0..<length fs]))"
    by blast
  then show ?thesis by (simp add: generateFiles_skip)
qed

theorem empty_path_skipped_witness:
  "path (gappedFiles ! 1) = []
   \<and> \<not> isl (fst (generateFiles exampleSandbox ''a shop'' ''demo'' (length gappedFiles) 0
                    gappedFiles [] exampleCoder exampleWorld))
   \<and> progress_values (events (snd (generateFiles exampleSandbox ''a shop'' ''demo''
         (length gappedFiles) 0 gappedFiles [] exampleCoder exampleWorld))) = [36, 90]
   \<and> overallProgress 1 (length gappedFiles) = 63"
proof -
  let ?G = "generateFiles exampleSandbox ''a shop'' ''demo'' (length gappedFiles) 0 gappedFiles []
              exampleCoder exampleWorld"
  have ok: "\<not> isl (fst ?G)" by code_simp
  have gap: "path (gappedFiles ! 1) = []" by code_simp
  have skipped: "overallProgress 1 (length gappedFiles) = 63" by code_simp
  have vals: "map (\<lambda>i. overallProgress i (length gappedFiles))
                (filter (\<lambda>i. path (gappedFiles ! i) \<noteq> []) [0..<length gappedFiles]) = [36, 90]"
    by code_simp
  have e: "events exampleWorld = []" by (simp add: exampleWorld_def)
  from empty_path_skipped [of _ exampleSandbox "''a shop''" "''demo''" _ _ _ _ exampleCoder
      exampleWorld gappedFiles]
  obtain es where "events (snd ?G) = events exampleWorld @ es"
    "\<not> isl (fst ?G) \<longrightarrow> progress_values es =
        map (\<lambda>i. overallProgress i (length gappedFiles))
          (filter (\<lambda>i. path (gappedFiles ! i) \<noteq> []) [0..<length gappedFiles])"
    by blast
  with ok gap skipped vals e show ?thesis by simp
qed

text \<open>
  Claim C5. In the events of every session, the file events are in order: the start of a
  file comes before its fragments, its completion after them and with their whole text,
  and the next start only after that completion. In particular no completion comes
  before its start.
\<close>

theorem session_file_events_ordered:
  "file_events_ordered (session rt parse apiKey sb taskId frame l fs)"
  by (rule session_ordered)

theorem session_file_events_ordered_witness:
  "file_events_ordered
     (session exampleRuntime parseGoalOnly (Some ''sk-1'') exampleSandbox ''t1''
        ''Make a snake GAME'' exampleModel exampleDisk)
   \<and> FileComplete ''style.css'' ''Sure, here it is''
        \<in> set (session exampleRuntime parseGoalOnly (Some ''sk-1'') exampleSandbox ''t1''
                 ''Make a snake GAME'' exampleModel exampleDisk)"
proof -
  have "FileComplete ''style.css'' ''Sure, here it is''
        \<in> set (session exampleRuntime parseGoalOnly (Some ''sk-1'') exampleSandbox ''t1''
                 ''Make a snake GAME'' exampleModel exampleDisk)"
    by code_simp
  with session_file_events_ordered [of exampleRuntime parseGoalOnly "Some ''sk-1''"
      exampleSandbox "''t1''" "''Make a snake GAME''" exampleModel exampleDisk]
  show ?thesis by simp
qed

section \<open>The start of a session\<close>

text \<open>
  Claim C8. A start message is a frame that parses to a JSON value other than \<open>null\<close>.
  When its goal is missing or empty, the only effect is the event
  \<open>error: Goal is required\<close>; the goal is checked first, so this holds whether the
  credential is configured or not. When the goal is there and the credential
  \<open>DEEPSEEK_API_KEY\<close> is unset or empty, the only effect is the event
  \<open>error: DEEPSEEK_API_KEY not configured\<close>. In both cases no classification event is sent
  and the model receives no request.
\<close>

theorem start_message_validated:
  assumes "parse frame = Inr data" and "data \<noteq> JNull"
  shows "(falsy (property data ''goal'') \<longrightarrow>
            onMessage rt parse apiKey sb taskId frame w = send (Error ''Goal is required'') w)
         \<and> (\<not> falsy (property data ''goal'') \<and> (apiKey = None \<or> apiKey = Some []) \<longrightarrow>
            onMessage rt parse apiKey sb taskId frame w
              = send (Error ''DEEPSEEK_API_KEY not configured'') w)"
  using assms by (cases data) (auto simp add: onMessage_def Let_def)

theorem start_message_validated_witness:
  "parseEmptyObject ''{}'' = Inr (JObj []) \<and> JObj [] \<noteq> JNull
   \<and> falsy (property (JObj []) ''goal'')
   \<and> onMessage exampleRuntime parseEmptyObject (Some ''sk-1'') exampleSandbox ''t1'' ''{}''
        exampleWorld = send (Error ''Goal is required'') exampleWorld
   \<and> parseGoalOnly ''a shop'' = Inr (JObj [(''goal'', JStr ''a shop'')])
   \<and> \<not> falsy (property (JObj [(''goal'', JStr ''a shop'')]) ''goal'')
   \<and> onMessage exampleRuntime parseGoalOnly None exampleSandbox ''t1'' ''a shop''
        exampleWorld = send (Error ''DEEPSEEK_API_KEY not configured'') exampleWorld"
proof -
  have a: "parseEmptyObject ''{}'' = Inr (JObj [])" "JObj [] \<noteq> JNull"
    "falsy (property (JObj []) ''goal'')"
    by (simp_all add: parseEmptyObject_def falsy_def property_def)
  have b: "parseGoalOnly ''a shop'' = Inr (JObj [(''goal'', JStr ''a shop'')])"
    "JObj [(''goal'', JStr ''a shop'')] \<noteq> JNull"
    "\<not> falsy (property (JObj [(''goal'', JStr ''a shop'')]) ''goal'')"
    by (simp_all add: parseGoalOnly_def falsy_def property_def)
  from start_message_validated
      [where parse = parseEmptyObject and frame = "''{}''" and data = "JObj []"
         and rt = exampleRuntime and apiKey = "Some ''sk-1''" and sb = exampleSandbox
         and taskId = "''t1''" and w = exampleWorld, OF a(1) a(2)]
    start_message_validated
      [where parse = parseGoalOnly and frame = "''a shop''"
         and data = "JObj [(''goal'', JStr ''a shop'')]"
         and rt = exampleRuntime and apiKey = None and sb = exampleSandbox
         and taskId = "''t1''" and w = exampleWorld, OF b(1) b(2)] a b
  show ?thesis by simp
qed

section \<open>Path names\<close>


subsection \<open>Segments of a path name\<close>

lemma split_chars_not_Nil [simp]: "split_chars P s \<noteq> []"
  by (induction s) (auto split: list.splits)

lemma split_chars_append:
  "P c \<Longrightarrow> split_chars P (a @ c # b) = split_chars P a @ split_chars P b"
proof (induction a)
  case Nil
  then show ?case by simp
next
  case (Cons x a)
  then show ?case
    by (cases "split_chars P a") (auto split: list.splits)
qed

lemma split_chars_free: "\<forall>c \<in> set s. \<not> P c \<Longrightarrow> split_chars P s = [s]"
  by (induction s) auto

lemma split_chars_parts: "x \<in> set (split_chars P s) \<Longrightarrow> \<forall>c \<in> set x. \<not> P c"
proof (induction s arbitrary: x)
  case Nil
  then show ?case by simp
next
  case (Cons a s)
  show ?case
  proof (cases "P a")
    case True
    with Cons show ?thesis by auto
  next
    case False
    obtain y ys where y: "split_chars P s = y # ys"
      by (cases "split_chars P s") auto
    with Cons.prems False have "x = a # y \<or> x \<in> set ys" by auto
    then show ?thesis
    proof
      assume "x = a # y"
      with Cons.IH [of y] y False show ?thesis by auto
    next
      assume "x \<in> set ys"
      with Cons.IH [of x] y show ?thesis by auto
    qed
  qed
qed

lemma segments_append: "segments (a @ CHR ''/'' # b) = segments a @ segments b"
  by (simp add: segments_def split_chars_append)

lemma segments_free: "CHR ''/'' \<notin> set s \<Longrightarrow> segments s = [s]"
  unfolding segments_def by (rule split_chars_free) auto

lemma segments_parts: "x \<in> set (segments s) \<Longrightarrow> CHR ''/'' \<notin> set x"
  using split_chars_parts [of x "\<lambda>c. c = CHR ''/''" s] by (auto simp add: segments_def)

lemma segments_join_with:
  "xs \<noteq> [] \<Longrightarrow> segments (join_with ''/'' xs) = concat (map segments xs)"
proof (induction xs)
  case Nil
  then show ?case by simp
next
  case (Cons x xs)
  show ?case
  proof (cases xs)
    case Nil
    then show ?thesis by simp
  next
    case (Cons y ys)
    with Cons.IH have "segments (join_with ''/'' (y # ys)) = concat (map segments (y # ys))"
      by simp
    with Cons show ?thesis
      using segments_append [of x "join_with ''/'' (y # ys)"] by simp
  qed
qed

lemma segments_join_with_free:
  assumes "xs \<noteq> []" and "\<forall>x \<in> set xs. CHR ''/'' \<notin> set x"
  shows "segments (join_with ''/'' xs) = xs"
proof -
  have "concat (map segments xs) = xs"
    using assms(2) by (induction xs) (simp_all add: segments_free)
  with segments_join_with [OF assms(1)] show ?thesis by simp
qed

lemma hd_join_with: "x \<noteq> [] \<Longrightarrow> hd (join_with sep (x # xs)) = hd x"
  by (cases xs) simp_all

lemma join_with_not_Nil: "x \<noteq> [] \<Longrightarrow> join_with sep (x # xs) \<noteq> []"
  by (cases xs) simp_all

subsection \<open>Normalising keeps the location\<close>


lemma resolveStep_proper:
  "proper seg \<Longrightarrow> seg \<noteq> ''..'' \<Longrightarrow> resolveStep dir seg = dir @ [seg]"
  by (simp add: resolveStep_def proper_def)

lemma normalizeStep_proper:
  "\<forall>x \<in> set res. proper x \<Longrightarrow> \<forall>x \<in> set (normalizeStep allow res seg). proper x"
  by (auto simp add: normalizeStep_def proper_def dest: in_set_butlastD)

lemma normalizeStep_no_dots:
  "''..'' \<notin> set res \<Longrightarrow> ''..'' \<notin> set (normalizeStep False res seg)"
  by (auto simp add: normalizeStep_def dest: in_set_butlastD)

lemma normalizeStep_no_slash:
  "\<forall>x \<in> set res. CHR ''/'' \<notin> set x \<Longrightarrow> CHR ''/'' \<notin> set seg
     \<Longrightarrow> \<forall>x \<in> set (normalizeStep allow res seg). CHR ''/'' \<notin> set x"
  by (auto simp add: normalizeStep_def dest: in_set_butlastD)

lemma foldl_normalizeStep_proper:
  "\<forall>x \<in> set res. proper x \<Longrightarrow> \<forall>x \<in> set (foldl (normalizeStep allow) res segs). proper x"
proof (induction segs arbitrary: res)
  case Nil
  then show ?case by simp
next
  case (Cons seg segs)
  from Cons.IH [OF normalizeStep_proper [OF Cons.prems]] show ?case by simp
qed

lemma foldl_normalizeStep_no_slash:
  "\<forall>x \<in> set res. CHR ''/'' \<notin> set x \<Longrightarrow> \<forall>s \<in> set segs. CHR ''/'' \<notin> set s
     \<Longrightarrow> \<forall>x \<in> set (foldl (normalizeStep allow) res segs). CHR ''/'' \<notin> set x"
proof (induction segs arbitrary: res)
  case Nil
  then show ?case by simp
next
  case (Cons seg segs)
  from Cons.prems have "CHR ''/'' \<notin> set seg" "\<forall>s \<in> set segs. CHR ''/'' \<notin> set s" by simp_all
  from Cons.IH [OF normalizeStep_no_slash [OF Cons.prems(1) this(1)] this(2)]
  show ?case by simp
qed

lemma foldl_normalizeStep_no_dots:
  "''..'' \<notin> set res \<Longrightarrow> ''..'' \<notin> set (foldl (normalizeStep False) res segs)"
proof (induction segs arbitrary: res)
  case Nil
  then show ?case by simp
next
  case (Cons seg segs)
  from Cons.IH [OF normalizeStep_no_dots [OF Cons.prems]] show ?case by simp
qed

lemma foldl_resolveStep_proper:
  "\<forall>x \<in> set res. proper x \<Longrightarrow> ''..'' \<notin> set res \<Longrightarrow> foldl resolveStep base res = base @ res"
proof (induction res arbitrary: base)
  case Nil
  show ?case by simp
next
  case (Cons a res)
  then have "proper a" "a \<noteq> ''..''" by auto
  then have "resolveStep base a = base @ [a]" by (rule resolveStep_proper)
  with Cons show ?case by simp
qed

text \<open>A relative name: \<open>..\<close> segments may stay at the front of the normal form.\<close>

lemma resolve_normalizeStep_relative:
  assumes "\<forall>x \<in> set res. proper x"
  shows "foldl resolveStep base (normalizeStep True res seg)
           = resolveStep (foldl resolveStep base res) seg"
proof (cases "seg = ''..'' \<and> res \<noteq> [] \<and> last res \<noteq> ''..''")
  case True
  then have "res = butlast res @ [last res]" "last res \<noteq> ''..''" by simp_all
  then obtain r rs where r: "res = rs @ [r]" "r \<noteq> ''..''" by blast
  with assms have "proper r" by simp
  with r True show ?thesis
    by (simp add: normalizeStep_def resolveStep_proper) (simp add: resolveStep_def)
next
  case False
  then show ?thesis
    by (auto simp add: normalizeStep_def resolveStep_def)
qed

lemma resolve_normalize_relative:
  "\<forall>x \<in> set res. proper x \<Longrightarrow>
   foldl resolveStep base (foldl (normalizeStep True) res segs)
     = foldl resolveStep (foldl resolveStep base res) segs"
proof (induction segs arbitrary: res)
  case Nil
  show ?case by simp
next
  case (Cons seg segs)
  from Cons.IH [OF normalizeStep_proper [OF Cons.prems, of True seg]]
  show ?case by (simp add: resolve_normalizeStep_relative [OF Cons.prems])
qed

text \<open>An absolute name: \<open>..\<close> at the root stays at the root.\<close>

lemma resolve_normalizeStep_absolute:
  assumes "\<forall>x \<in> set res. proper x" and "''..'' \<notin> set res"
  shows "normalizeStep False res seg = resolveStep res seg"
proof (cases "res = []")
  case True
  then show ?thesis by (simp add: normalizeStep_def resolveStep_def)
next
  case False
  with assms(2) have "last res \<noteq> ''..''" using last_in_set by metis
  with False show ?thesis by (simp add: normalizeStep_def resolveStep_def)
qed

lemma resolve_normalize_absolute:
  "\<forall>x \<in> set res. proper x \<Longrightarrow> ''..'' \<notin> set res \<Longrightarrow>
   foldl (normalizeStep False) res segs = foldl resolveStep res segs"
proof (induction segs arbitrary: res)
  case Nil
  show ?case by simp
next
  case (Cons seg segs)
  have "foldl (normalizeStep False) (normalizeStep False res seg) segs
          = foldl resolveStep (normalizeStep False res seg) segs"
    by (rule Cons.IH [OF normalizeStep_proper [OF Cons.prems(1)]
                        normalizeStep_no_dots [OF Cons.prems(2)]])
  then show ?case
    by (simp add: resolve_normalizeStep_absolute [OF Cons.prems])
qed


lemma resolveStep_empty [simp]: "resolveStep dir [] = dir"
  by (simp add: resolveStep_def)

lemma segments_Nil [simp]: "segments [] = [[]]"
  by (simp add: segments_def)

lemma segments_slash_Cons: "segments (CHR ''/'' # s) = [] # segments s"
  by (simp add: segments_def)

lemma segments_snoc_slash: "segments (s @ ''/'') = segments s @ [[]]"
  using segments_append [of s "[]"] by simp

lemma hd_segments_absolute: "p \<noteq> [] \<Longrightarrow> hd p = CHR ''/'' \<Longrightarrow> \<exists>s. p = CHR ''/'' # s"
  by (cases p) simp_all


lemma resolve_alt: "resolve fs p = foldl resolveStep (base_of fs p) (segments p)"
  by (simp add: resolve_def base_of_def)

lemma normal_form_resolves:
  assumes "p \<noteq> []"
  shows "foldl resolveStep (base_of fs p)
           (normalizeString (segments p) (\<not> (hd p = CHR ''/'')))
         = resolve fs p"
proof (cases "hd p = CHR ''/''")
  case True
  have "foldl (normalizeStep False) [] (segments p) = foldl resolveStep [] (segments p)"
    by (rule resolve_normalize_absolute) simp_all
  moreover have "\<forall>x \<in> set (foldl (normalizeStep False) [] (segments p)). proper x"
    by (rule foldl_normalizeStep_proper) simp
  moreover have "''..'' \<notin> set (foldl (normalizeStep False) [] (segments p))"
    by (rule foldl_normalizeStep_no_dots) simp
  ultimately show ?thesis
    using True assms
    by (simp add: normalizeString_def resolve_def base_of_def foldl_resolveStep_proper)
next
  case False
  have "foldl resolveStep (cwd fs) (foldl (normalizeStep True) [] (segments p))
          = foldl resolveStep (foldl resolveStep (cwd fs) []) (segments p)"
    by (rule resolve_normalize_relative) simp
  with False show ?thesis
    by (simp add: normalizeString_def resolve_def base_of_def)
qed


lemma foldl_resolveStep_pad:
  assumes "pre = [] \<or> pre = [[]]" and "post = [] \<or> post = [[]]"
  shows "foldl resolveStep base (pre @ segs @ post) = foldl resolveStep base segs"
  using assms by auto

lemma resolve_normalize:
  assumes "p \<noteq> []"
  shows "resolve fs (normalize p) = resolve fs p"
proof -
  let ?abs = "hd p = CHR ''/''"
  let ?N = "normalizeString (segments p) (\<not> ?abs)"
  let ?body = "join_with ''/'' ?N"
  have proper: "\<forall>x \<in> set ?N. proper x"
    unfolding normalizeString_def by (rule foldl_normalizeStep_proper) simp
  have free: "\<forall>x \<in> set ?N. CHR ''/'' \<notin> set x"
    unfolding normalizeString_def
    by (rule foldl_normalizeStep_no_slash) (simp_all add: segments_parts)
  have base: "base_of fs p = (if ?abs then [] else cwd fs)"
    using assms by (simp add: base_of_def)
  note nf = normal_form_resolves [OF assms, of fs]
  show ?thesis
  proof (cases "?N = []")
    case True
    have "resolve fs ''/'' = []" "resolve fs ''./'' = cwd fs" "resolve fs ''.'' = cwd fs"
      by (simp_all add: resolve_def segments_def resolveStep_def)
    have n: "normalize p = (if ?abs then ''/'' else if last p = CHR ''/'' then ''./'' else ''.'')"
      using assms True by (simp add: normalize_def Let_def)
    from nf True base have "resolve fs p = (if ?abs then [] else cwd fs)" by simp
    with n \<open>resolve fs ''/'' = []\<close> \<open>resolve fs ''./'' = cwd fs\<close>
      \<open>resolve fs ''.'' = cwd fs\<close>
    show ?thesis by (cases ?abs; cases "last p = CHR ''/''") simp_all
  next
    case False
    then obtain x xs where N: "?N = x # xs" by (cases ?N) auto
    with proper free have x: "x \<noteq> []" "CHR ''/'' \<notin> set x" by (simp_all add: proper_def)
    then have hdx: "hd x \<noteq> CHR ''/''" by (cases x) auto
    have body: "?body \<noteq> []" "hd ?body = hd x"
      using x(1) by (simp_all add: N join_with_not_Nil hd_join_with)
    have segs: "segments ?body = ?N"
      using False free by (rule segments_join_with_free)
    let ?r = "(if ?abs then ''/'' else []) @ ?body @ (if last p = CHR ''/'' then ''/'' else [])"
    have r: "normalize p = ?r"
      using assms body(1) by (simp add: normalize_def Let_def)
    have rb: "base_of fs ?r = base_of fs p"
    proof (cases ?abs)
      case True
      with assms show ?thesis by (simp add: base_of_def)
    next
      case False
      with body hdx have "hd ?r \<noteq> CHR ''/''" by simp
      with False assms show ?thesis by (simp add: base_of_def)
    qed
    have rs: "segments ?r = (if ?abs then [[]] else []) @ ?N
                @ (if last p = CHR ''/'' then [[]] else [])"
      using segs by (cases ?abs) (simp_all add: segments_slash_Cons segments_snoc_slash)
    have "resolve fs ?r = foldl resolveStep (base_of fs p) ?N"
      unfolding resolve_alt rb rs by (rule foldl_resolveStep_pad) simp_all
    with nf r show ?thesis by simp
  qed
qed

lemma normalize_not_Nil: "normalize p \<noteq> []"
  by (simp add: normalize_def Let_def)

lemma join_not_Nil: "join args \<noteq> []"
  by (simp add: join_def Let_def normalize_not_Nil)

lemma resolve_join:
  assumes "filter (\<lambda>a. a \<noteq> []) args = x # xs"
  shows "resolve fs (join args) = foldl resolveStep (base_of fs x) (concat (map segments (x # xs)))"
proof -
  from assms have "x \<in> set (filter (\<lambda>a. a \<noteq> []) args)" by simp
  then have x: "x \<noteq> []" by simp
  let ?q = "join_with ''/'' (x # xs)"
  have q: "?q \<noteq> []" "hd ?q = hd x"
    using x by (simp_all add: join_with_not_Nil hd_join_with)
  have "join args = normalize ?q" using assms by (simp add: join_def)
  then have "resolve fs (join args) = resolve fs ?q"
    by (simp add: resolve_normalize [OF q(1)])
  also have "\<dots> = foldl resolveStep (base_of fs ?q) (segments ?q)" by (rule resolve_alt)
  also have "base_of fs ?q = base_of fs x" using q x by (simp add: base_of_def)
  also have "segments ?q = concat (map segments (x # xs))"
    by (rule segments_join_with) simp
  finally show ?thesis .
qed

lemma resolve_join_below:
  assumes "ws \<noteq> []"
  shows "resolve fs (join [ws, pn, fp]) = foldl resolveStep (resolve fs (join [ws, pn])) (segments fp)"
proof -
  have a: "filter (\<lambda>a. a \<noteq> []) [ws, pn, fp] = ws # filter (\<lambda>a. a \<noteq> []) [pn, fp]"
    and b: "filter (\<lambda>a. a \<noteq> []) [ws, pn] = ws # filter (\<lambda>a. a \<noteq> []) [pn]"
    using assms by simp_all
  show ?thesis
    unfolding resolve_join [OF a] resolve_join [OF b]
    by (cases "pn = []"; cases "fp = []") simp_all
qed

lemma resolve_join_child:
  assumes "pp \<noteq> []" and "proper a" "a \<noteq> ''..''" "CHR ''/'' \<notin> set a"
  shows "resolve fs (join [pp, a]) = resolve fs pp @ [a]"
proof -
  from assms(2) have ne: "a \<noteq> []" by (simp add: proper_def)
  have f: "filter (\<lambda>a. a \<noteq> []) [pp, a] = pp # [a]" using assms(1) ne by simp
  show ?thesis
    unfolding resolve_join [OF f]
    using assms by (simp add: segments_free resolveStep_proper resolve_alt)
qed

lemma resolve_join_grandchild:
  assumes "pp \<noteq> []" and "proper a" "a \<noteq> ''..''" "CHR ''/'' \<notin> set a"
    and "proper b" "b \<noteq> ''..''" "CHR ''/'' \<notin> set b"
  shows "resolve fs (join [pp, a, b]) = resolve fs pp @ [a, b]"
proof -
  from assms(2,5) have ne: "a \<noteq> []" "b \<noteq> []" by (simp_all add: proper_def)
  have f: "filter (\<lambda>a. a \<noteq> []) [pp, a, b] = pp # [a, b]" using assms(1) ne by simp
  show ?thesis
    unfolding resolve_join [OF f]
    using assms by (simp add: segments_free resolveStep_proper resolve_alt)
qed

lemma inside_foldl_resolveStep:
  "''..'' \<notin> set segs \<Longrightarrow> inside dir (foldl resolveStep dir segs)"
proof -
  have "''..'' \<notin> set segs \<Longrightarrow> \<exists>more. foldl resolveStep dir segs = dir @ more"
  proof (induction segs rule: rev_induct)
    case Nil
    show ?case by simp
  next
    case (snoc seg segs)
    then obtain more where m: "foldl resolveStep dir segs = dir @ more" by auto
    from snoc.prems have "seg \<noteq> ''..''" by auto
    then have "resolveStep (dir @ more) seg = dir @ more
               \<or> resolveStep (dir @ more) seg = dir @ (more @ [seg])"
      by (simp add: resolveStep_def)
    with m show ?case by (simp only: foldl_append foldl.simps) blast
  qed
  then show "''..'' \<notin> set segs \<Longrightarrow> inside dir (foldl resolveStep dir segs)"
    by (auto simp add: inside_def)
qed

section \<open>Writing a file of a project\<close>


subsection \<open>Entries of a directory\<close>

lemma map_of_set_entry: "map_of (set_entry k v es) k' = (if k' = k then Some v else map_of es k')"
  by (induction es) auto

lemma map_of_del_entry: "map_of (del_entry k es) k = None"
  by (induction es) (auto simp add: del_entry_def)

lemma local_run_template:
  "local_run (template_ops t pp) (Dir []) = Inr (Dir (template_entries t pp))"
  by (cases t) (simp_all add: template_ops_def template_entries_def)

subsection \<open>Files are kept by operations elsewhere\<close>

lemma file_at_Dir_Nil [simp]: "file_at (Dir es) [] = None"
  by (simp add: file_at_def)

lemma file_at_empty_Dir [simp]: "file_at (Dir []) q = None"
  by (cases q) (simp_all add: file_at_def)

lemma file_at_File_Cons [simp]: "file_at (File c) (s # q) = None"
  by (simp add: file_at_def)

lemma file_at_Dir_Cons:
  "file_at (Dir es) (s # q) = (case map_of es s of None \<Rightarrow> None | Some ch \<Rightarrow> file_at ch q)"
  by (simp add: file_at_def split: option.splits)

lemma file_at_below_file: "\<forall>ds. x \<noteq> Dir ds \<Longrightarrow> file_at x (u # q) = None"
  by (cases x) simp_all

lemma mkdirp_at_keeps_files:
  "mkdirp_at p n = Inr n' \<Longrightarrow> file_at n' q = file_at n q"
proof (induction p arbitrary: n n' q)
  case Nil
  then show ?case by (cases n) simp_all
next
  case (Cons s p)
  show ?case
  proof (cases n)
    case (File c)
    with Cons.prems show ?thesis by simp
  next
    case (Dir es)
    let ?ch = "case map_of es s of None \<Rightarrow> Dir [] | Some ch \<Rightarrow> ch"
    from Cons.prems Dir obtain ch' where
      ch': "mkdirp_at p ?ch = Inr ch'" "n' = Dir (set_entry s ch' es)"
      by (auto split: sum.splits)
    note ih = Cons.IH [OF ch'(1)]
    show ?thesis
    proof (cases q)
      case Nil
      with Dir ch' show ?thesis by simp
    next
      case (Cons t q')
      show ?thesis
      proof (cases "t = s")
        case True
        with Dir ch' Cons ih [of q'] show ?thesis
          by (simp add: file_at_Dir_Cons map_of_set_entry split: option.splits)
      next
        case False
        with Dir ch' Cons show ?thesis
          by (simp add: file_at_Dir_Cons map_of_set_entry)
      qed
    qed
  qed
qed

lemma writeFile_at_keeps_files:
  "writeFile_at p txt n = Inr n' \<Longrightarrow> q \<noteq> p \<Longrightarrow> file_at n' q = file_at n q"
proof (induction p arbitrary: n n' q)
  case Nil
  then show ?case by simp
next
  case (Cons s p)
  show ?case
  proof (cases n)
    case (File c)
    with Cons.prems show ?thesis by simp
  next
    case (Dir es)
    show ?thesis
    proof (cases q)
      case Nil
      with Dir Cons.prems show ?thesis
        by (auto split: if_splits option.splits node.splits sum.splits)
    next
      case q: (Cons t q')
      show ?thesis
      proof (cases "p = []")
        case True
        with Dir Cons.prems(1) have n': "n' = Dir (set_entry s (File txt) es)"
          and old: "\<forall>ds. map_of es s \<noteq> Some (Dir ds)"
          by (auto split: option.splits node.splits)
        show ?thesis
        proof (cases "t = s")
          case same: True
          with Cons.prems(2) q True have "q' \<noteq> []" by simp
          then obtain u q'' where "q' = u # q''" by (cases q') auto
          with same Dir n' q old show ?thesis
            by (auto simp add: file_at_Dir_Cons map_of_set_entry file_at_below_file
                split: option.splits)
        next
          case False
          with Dir n' q show ?thesis by (simp add: file_at_Dir_Cons map_of_set_entry)
        qed
      next
        case False
        with Dir Cons.prems(1) obtain ch ch' where
          ch: "map_of es s = Some ch" "writeFile_at p txt ch = Inr ch'"
              "n' = Dir (set_entry s ch' es)"
          by (auto split: option.splits sum.splits)
        show ?thesis
        proof (cases "t = s")
          case True
          with Cons.prems(2) q have "q' \<noteq> p" by simp
          from Cons.IH [OF ch(2) this] True Dir ch q show ?thesis
            by (simp add: file_at_Dir_Cons map_of_set_entry)
        next
          case False
          with Dir ch q show ?thesis by (simp add: file_at_Dir_Cons map_of_set_entry)
        qed
      qed
    qed
  qed
qed

lemma writeFile_at_writes:
  "writeFile_at p txt n = Inr n' \<Longrightarrow> file_at n' p = Some txt"
proof (induction p arbitrary: n n')
  case Nil
  then show ?case by simp
next
  case (Cons s p)
  show ?case
  proof (cases n)
    case (File c)
    with Cons.prems show ?thesis by simp
  next
    case (Dir es)
    show ?thesis
    proof (cases "p = []")
      case True
      with Dir Cons.prems have "n' = Dir (set_entry s (File txt) es)"
        by (auto split: option.splits node.splits)
      with True show ?thesis by (simp add: file_at_def map_of_set_entry)
    next
      case False
      with Dir Cons.prems obtain ch ch' where
        ch: "map_of es s = Some ch" "writeFile_at p txt ch = Inr ch'"
            "n' = Dir (set_entry s ch' es)"
        by (auto split: option.splits sum.splits)
      from Cons.IH [OF ch(2)] ch show ?thesis
        by (simp add: file_at_Dir_Cons map_of_set_entry)
    qed
  qed
qed


subsection \<open>Operations by path name\<close>

lemma resolve_cwd: "cwd fs1 = cwd fs2 \<Longrightarrow> resolve fs1 p = resolve fs2 p"
  by (simp add: resolve_def)

lemma mkdirp_effect:
  assumes "mkdirp p fs = (r, fs')"
  shows "cwd fs' = cwd fs" and "file_at (tree fs') q = file_at (tree fs) q"
  using assms
  by (auto simp add: mkdirp_def split: sum.splits dest: mkdirp_at_keeps_files)

lemma writeFile_effect:
  assumes "writeFile p txt fs = (r, fs')"
  shows "cwd fs' = cwd fs"
    and "q \<noteq> resolve fs p \<Longrightarrow> file_at (tree fs') q = file_at (tree fs) q"
    and "r = Inr () \<Longrightarrow> file_at (tree fs') (resolve fs p) = Some txt"
  using assms
  by (auto simp add: writeFile_def split: sum.splits if_splits
      dest: writeFile_at_keeps_files writeFile_at_writes)

lemma writeProjectFile_effect:
  assumes "writeProjectFile sb project filePath txt fs = (r, fs')"
  shows "q \<noteq> resolve fs (join [workspaceDir sb, project, filePath])
           \<Longrightarrow> file_at (tree fs') q = file_at (tree fs) q"
    and "r = Inr () \<Longrightarrow>
           file_at (tree fs') (resolve fs (join [workspaceDir sb, project, filePath])) = Some txt"
proof -
  let ?full = "join [workspaceDir sb, project, filePath]"
  obtain r1 fs1 where m: "mkdirp (dirname ?full) fs = (r1, fs1)" by (metis prod.exhaust)
  note m1 = mkdirp_effect [OF m]
  have res: "resolve fs1 ?full = resolve fs ?full" by (rule resolve_cwd [OF m1(1)])
  show "file_at (tree fs') q = file_at (tree fs) q"
    if "q \<noteq> resolve fs (join [workspaceDir sb, project, filePath])"
  proof (cases r1)
    case (Inl e)
    with assms m have "fs' = fs1" by (simp add: writeProjectFile_def Let_def)
    with m1(2) show ?thesis by simp
  next
    case (Inr u)
    with assms m have w: "writeFile ?full txt fs1 = (r, fs')"
      by (simp add: writeProjectFile_def Let_def split: prod.splits sum.splits)
    from writeFile_effect(2) [OF w, of q] that res m1(2) show ?thesis by simp
  qed
  show "file_at (tree fs') (resolve fs (join [workspaceDir sb, project, filePath])) = Some txt"
    if "r = Inr ()"
  proof (cases r1)
    case (Inl e)
    with assms m that show ?thesis by (simp add: writeProjectFile_def Let_def)
  next
    case (Inr u)
    with assms m have w: "writeFile ?full txt fs1 = (r, fs')"
      by (simp add: writeProjectFile_def Let_def split: prod.splits sum.splits)
    from writeFile_effect(3) [OF w that] res show ?thesis by simp
  qed
qed

lemma writeProjectFile_rank:
  "rank (snd (writeProjectFile sb project filePath txt fs)) = rank fs"
  by (simp add: writeProjectFile_def Let_def mkdirp_def writeFile_def
           split: sum.splits prod.splits)

text \<open>
  Claim C1, as amended. \<open>writeProjectFile\<close> creates or overwrites no file but the one at
  the location of the normalised path \<open>workspaceDir/project/filePath\<close>: the file at every
  other location is as before (directories may be created on the way), and after a
  successful call the file at that location has the new content. The path is not checked
  against the project directory. The location is inside the project directory whenever
  the workspace directory is not empty and \<open>filePath\<close> has no \<open>..\<close> segment.
\<close>

theorem writeProjectFile_target:
  assumes "writeProjectFile sb project filePath txt fs = (r, fs')"
  shows "(\<forall>q. q \<noteq> resolve fs (join [workspaceDir sb, project, filePath]) \<longrightarrow>
              file_at (tree fs') q = file_at (tree fs) q)
         \<and> (r = Inr () \<longrightarrow>
              file_at (tree fs') (resolve fs (join [workspaceDir sb, project, filePath])) = Some txt)
         \<and> (workspaceDir sb \<noteq> [] \<and> ''..'' \<notin> set (segments filePath) \<longrightarrow>
              inside (resolve fs (join [workspaceDir sb, project]))
                (resolve fs (join [workspaceDir sb, project, filePath])))"
  using writeProjectFile_effect [OF assms]
  by (auto simp add: resolve_join_below intro: inside_foldl_resolveStep)

theorem writeProjectFile_target_witness:
  "writeProjectFile exampleSandbox ''demo'' ''src/app.js'' ''let x'' exampleDisk
     = (Inr (), exampleDisk\<lparr>tree :=
          Dir [(''ws'', Dir [(''demo'', Dir [(''old.txt'', File ''stale''),
                                            (''src'', Dir [(''app.js'', File ''let x'')])])])]\<rparr>)
   \<and> workspaceDir exampleSandbox \<noteq> [] \<and> ''..'' \<notin> set (segments ''src/app.js'')
   \<and> resolve exampleDisk (join [workspaceDir exampleSandbox, ''demo'', ''src/app.js''])
        = [''ws'', ''demo'', ''src'', ''app.js'']
   \<and> inside (resolve exampleDisk (join [workspaceDir exampleSandbox, ''demo'']))
        [''ws'', ''demo'', ''src'', ''app.js'']
   \<and> file_at (Dir [(''ws'', Dir [(''demo'', Dir [(''old.txt'', File ''stale''),
                                            (''src'', Dir [(''app.js'', File ''let x'')])])])])
        [''ws'', ''demo'', ''old.txt''] = Some ''stale''"
proof -
  let ?after = "exampleDisk\<lparr>tree :=
          Dir [(''ws'', Dir [(''demo'', Dir [(''old.txt'', File ''stale''),
                                            (''src'', Dir [(''app.js'', File ''let x'')])])])]\<rparr>"
  let ?run = "writeProjectFile exampleSandbox ''demo'' ''src/app.js'' ''let x'' exampleDisk"
  have ok: "fst ?run = Inr ()" by code_simp
  have tree: "tree (snd ?run) = tree ?after" by code_simp
  have cwd: "cwd (snd ?run) = cwd ?after" by code_simp
  have rank: "rank (snd ?run) = rank ?after" by (simp add: writeProjectFile_rank)
  have "snd ?run = ?after"
    by (rule filesystem.equality) (simp_all only: tree cwd rank filesystem.ext_inject, simp)
  with ok have run: "?run = (Inr (), ?after)"
    by (simp add: prod_eq_iff)
  have hyp: "workspaceDir exampleSandbox \<noteq> [] \<and> ''..'' \<notin> set (segments ''src/app.js'')"
    by code_simp
  have target: "resolve exampleDisk (join [workspaceDir exampleSandbox, ''demo'', ''src/app.js''])
        = [''ws'', ''demo'', ''src'', ''app.js'']"
    by code_simp
  have old: "file_at (tree exampleDisk) [''ws'', ''demo'', ''old.txt''] = Some ''stale''"
    by code_simp
  from writeProjectFile_target [OF run] hyp target old
  show ?thesis by (simp add: run)
qed

text \<open>
  The claim as stated holds for every relative path. A \<open>..\<close> segment is resolved by
  \<open>join\<close> against the project name, and the file is written beside the project
  directory.
\<close>

theorem writeProjectFile_escape_counterexample:
  "fst (writeProjectFile exampleSandbox ''demo'' ''../escape.txt'' ''out'' exampleDisk) = Inr ()
   \<and> file_at (tree exampleDisk) [''ws'', ''escape.txt''] = None
   \<and> file_at (tree (snd (writeProjectFile exampleSandbox ''demo'' ''../escape.txt'' ''out''
                            exampleDisk))) [''ws'', ''escape.txt''] = Some ''out''
   \<and> resolve exampleDisk (join [workspaceDir exampleSandbox, ''demo'']) = [''ws'', ''demo'']
   \<and> \<not> inside [''ws'', ''demo''] [''ws'', ''escape.txt'']"
  by code_simp

section \<open>Initialising a project\<close>


subsection \<open>Looking below a directory\<close>

lemma lookup_append:
  "lookup n (P @ r) = (case lookup n P of None \<Rightarrow> None | Some d \<Rightarrow> lookup d r)"
proof (induction P arbitrary: n)
  case Nil
  show ?case by simp
next
  case (Cons s P)
  show ?case by (cases n) (simp_all add: Cons.IH split: option.splits)
qed

lemma rimraf_at_lookup: "P \<noteq> [] \<Longrightarrow> lookup (rimraf_at P n) P = None"
proof (induction P arbitrary: n)
  case Nil
  then show ?case by simp
next
  case (Cons s p)
  show ?case
  proof (cases n)
    case (File c)
    then show ?thesis by simp
  next
    case (Dir es)
    show ?thesis
    proof (cases "map_of es s")
      case None
      with Dir show ?thesis by simp
    next
      case (Some ch)
      show ?thesis
      proof (cases "p = []")
        case True
        with Dir Some show ?thesis by (simp add: map_of_del_entry)
      next
        case False
        with Dir Some Cons.IH [OF False, of ch] show ?thesis
          by (simp add: map_of_set_entry)
      qed
    qed
  qed
qed

lemma mkdirp_at_fresh:
  "lookup n P = None \<Longrightarrow> mkdirp_at P n = Inr n' \<Longrightarrow> lookup n' P = Some (Dir [])"
proof (induction P arbitrary: n n')
  case Nil
  then show ?case by simp
next
  case (Cons s p)
  show ?case
  proof (cases n)
    case (File c)
    with Cons.prems show ?thesis by simp
  next
    case (Dir es)
    let ?ch = "case map_of es s of None \<Rightarrow> Dir [] | Some ch \<Rightarrow> ch"
    from Cons.prems(2) Dir obtain ch' where
      ch': "mkdirp_at p ?ch = Inr ch'" "n' = Dir (set_entry s ch' es)"
      by (auto split: sum.splits)
    have "lookup ch' p = Some (Dir [])"
    proof (cases "p = []")
      case True
      with Cons.prems(1) Dir have "map_of es s = None" by (simp split: option.splits)
      with True ch'(1) show ?thesis by simp
    next
      case False
      then obtain t p' where p: "p = t # p'" by (cases p) auto
      have "lookup ?ch p = None"
        using Cons.prems(1) Dir p by (simp split: option.splits)
      from Cons.IH [OF this ch'(1)] show ?thesis .
    qed
    with ch'(2) show ?thesis by (simp add: map_of_set_entry)
  qed
qed

lemma mkdirp_at_focus:
  "lookup n P = Some d \<Longrightarrow> mkdirp_at (P @ r) n = Inr n'
     \<Longrightarrow> \<exists>d'. mkdirp_at r d = Inr d' \<and> lookup n' P = Some d'"
proof (induction P arbitrary: n n')
  case Nil
  then show ?case by simp
next
  case (Cons s p)
  show ?case
  proof (cases n)
    case (File c)
    with Cons.prems show ?thesis by simp
  next
    case (Dir es)
    with Cons.prems(1) obtain ch where ch: "map_of es s = Some ch" "lookup ch p = Some d"
      by (auto split: option.splits)
    with Cons.prems(2) Dir obtain ch' where
      ch': "mkdirp_at (p @ r) ch = Inr ch'" "n' = Dir (set_entry s ch' es)"
      by (auto split: sum.splits)
    from Cons.IH [OF ch(2) ch'(1)] ch'(2) show ?thesis
      by (simp add: map_of_set_entry)
  qed
qed

lemma writeFile_at_focus:
  "lookup n P = Some d \<Longrightarrow> r \<noteq> [] \<Longrightarrow> writeFile_at (P @ r) txt n = Inr n'
     \<Longrightarrow> \<exists>d'. writeFile_at r txt d = Inr d' \<and> lookup n' P = Some d'"
proof (induction P arbitrary: n n')
  case Nil
  then show ?case by simp
next
  case (Cons s p)
  show ?case
  proof (cases n)
    case (File c)
    with Cons.prems show ?thesis by simp
  next
    case (Dir es)
    with Cons.prems(1) obtain ch where ch: "map_of es s = Some ch" "lookup ch p = Some d"
      by (auto split: option.splits)
    from Cons.prems(2) have "p @ r \<noteq> []" by simp
    with Cons.prems(3) Dir ch obtain ch' where
      ch': "writeFile_at (p @ r) txt ch = Inr ch'" "n' = Dir (set_entry s ch' es)"
      by (auto split: sum.splits)
    from Cons.IH [OF ch(2) Cons.prems(2) ch'(1)] ch'(2) show ?thesis
      by (simp add: map_of_set_entry)
  qed
qed

subsection \<open>Sequences of focused operations\<close>

lemma focused_mkdirp:
  assumes "\<And>fs. cwd fs = c \<Longrightarrow> resolve fs p = P @ r"
  shows "focused P c (mkdirp p) (MakeDir r)"
  unfolding focused_def
proof (intro allI impI)
  fix fs d u fs'
  assume a: "cwd fs = c \<and> lookup (tree fs) P = Some d \<and> mkdirp p fs = (Inr u, fs')"
  then have res: "resolve fs p = P @ r" using assms by blast
  from a obtain n' where n': "mkdirp_at (P @ r) (tree fs) = Inr n'" "fs' = fs\<lparr>tree := n'\<rparr>"
    by (auto simp add: mkdirp_def res split: sum.splits)
  from mkdirp_at_focus [OF _ n'(1)] a obtain d' where
    "mkdirp_at r d = Inr d'" "lookup n' P = Some d'" by blast
  with n'(2) a show "\<exists>d'. local_run [MakeDir r] d = Inr d' \<and> lookup (tree fs') P = Some d'
                        \<and> cwd fs' = c"
    by simp
qed

lemma focused_writeFile:
  assumes "\<And>fs. cwd fs = c \<Longrightarrow> resolve fs p = P @ r" and "r \<noteq> []"
  shows "focused P c (writeFile p txt) (WriteAt r txt)"
  unfolding focused_def
proof (intro allI impI)
  fix fs d u fs'
  assume a: "cwd fs = c \<and> lookup (tree fs) P = Some d \<and> writeFile p txt fs = (Inr u, fs')"
  then have res: "resolve fs p = P @ r" using assms(1) by blast
  from a obtain n' where n': "writeFile_at (P @ r) txt (tree fs) = Inr n'" "fs' = fs\<lparr>tree := n'\<rparr>"
    by (auto simp add: writeFile_def res split: sum.splits if_splits)
  from writeFile_at_focus [OF _ assms(2) n'(1)] a obtain d' where
    "writeFile_at r txt d = Inr d'" "lookup n' P = Some d'" by blast
  with n'(2) a show "\<exists>d'. local_run [WriteAt r txt] d = Inr d' \<and> lookup (tree fs') P = Some d'
                        \<and> cwd fs' = c"
    by simp
qed

lemma local_run_Cons:
  "local_run (g # gs) d = (case local_run [g] d of Inl e \<Rightarrow> Inl e | Inr d' \<Rightarrow> local_run gs d')"
  by (cases g) (simp_all split: sum.splits)

lemma in_sequence_focused:
  "list_all2 (focused P c) fs gs \<Longrightarrow> cwd s = c \<Longrightarrow> lookup (tree s) P = Some d
     \<Longrightarrow> in_sequence fs s = (Inr u, s')
     \<Longrightarrow> \<exists>d'. local_run gs d = Inr d' \<and> lookup (tree s') P = Some d' \<and> cwd s' = c"
proof (induction arbitrary: s d rule: list_all2_induct)
  case Nil
  then show ?case by simp
next
  case (Cons f fs g gs)
  from Cons.prems(3) obtain s1 where s1: "f s = (Inr (), s1)" "in_sequence fs s1 = (Inr u, s')"
    by (auto split: prod.splits sum.splits)
  with Cons.hyps(1) Cons.prems(1,2) obtain d1 where
    d1: "local_run [g] d = Inr d1" "lookup (tree s1) P = Some d1" "cwd s1 = c"
    unfolding focused_def by blast
  from Cons.IH [OF d1(3) d1(2) s1(2)] obtain d' where
    "local_run gs d1 = Inr d'" "lookup (tree s') P = Some d'" "cwd s' = c" by blast
  with d1(1) show ?case by (simp add: local_run_Cons [of g gs])
qed



subsection \<open>The boilerplate of a template\<close>

lemma template_child:
  assumes "pp \<noteq> []" and "cwd fs = cwd fs0"
    and "proper a" "a \<noteq> ''..''" "CHR ''/'' \<notin> set a"
  shows "resolve fs (join [pp, a]) = resolve fs0 pp @ [a]"
  using resolve_join_child [OF assms(1,3,4,5), of fs] resolve_cwd [OF assms(2), of pp]
  by simp

lemma template_grandchild:
  assumes "pp \<noteq> []" and "cwd fs = cwd fs0"
    and "proper a" "a \<noteq> ''..''" "CHR ''/'' \<notin> set a"
    and "proper b" "b \<noteq> ''..''" "CHR ''/'' \<notin> set b"
  shows "resolve fs (join [pp, a, b]) = resolve fs0 pp @ [a, b]"
  using resolve_join_grandchild [OF assms(1,3,4,5,6,7,8), of fs] resolve_cwd [OF assms(2), of pp]
  by simp



subsection \<open>When the operations succeed\<close>

lemma mkdirp_at_enabled:
  "lookup n P = Some d \<Longrightarrow> mkdirp_at r d = Inr d' \<Longrightarrow> \<exists>n'. mkdirp_at (P @ r) n = Inr n'"
proof (induction P arbitrary: n)
  case Nil
  then show ?case by simp
next
  case (Cons s p)
  show ?case
  proof (cases n)
    case (File c)
    with Cons.prems show ?thesis by simp
  next
    case (Dir es)
    with Cons.prems(1) obtain ch where ch: "map_of es s = Some ch" "lookup ch p = Some d"
      by (auto split: option.splits)
    from Cons.IH [OF ch(2) Cons.prems(2)] obtain ch' where "mkdirp_at (p @ r) ch = Inr ch'"
      by blast
    with Dir ch show ?thesis by simp
  qed
qed

lemma writeFile_at_enabled:
  "lookup n P = Some d \<Longrightarrow> r \<noteq> [] \<Longrightarrow> writeFile_at r txt d = Inr d'
     \<Longrightarrow> \<exists>n'. writeFile_at (P @ r) txt n = Inr n'"
proof (induction P arbitrary: n)
  case Nil
  then show ?case by simp
next
  case (Cons s p)
  show ?case
  proof (cases n)
    case (File c)
    with Cons.prems show ?thesis by simp
  next
    case (Dir es)
    with Cons.prems(1) obtain ch where ch: "map_of es s = Some ch" "lookup ch p = Some d"
      by (auto split: option.splits)
    from Cons.IH [OF ch(2) Cons.prems(2,3)] obtain ch' where "writeFile_at (p @ r) txt ch = Inr ch'"
      by blast
    with Dir ch Cons.prems(2) show ?thesis by simp
  qed
qed

lemma enabled_mkdirp:
  assumes "\<And>fs. cwd fs = c \<Longrightarrow> resolve fs p = P @ r"
  shows "enabled P c (mkdirp p) (MakeDir r)"
  unfolding enabled_def
proof (intro allI impI)
  fix fs :: filesystem and d d'
  assume a: "cwd fs = c \<and> lookup (tree fs) P = Some d \<and> local_run [MakeDir r] d = Inr d'"
  then have res: "resolve fs p = P @ r" using assms by blast
  from a have "mkdirp_at r d = Inr d'" by (simp split: sum.splits)
  with mkdirp_at_enabled [of "tree fs" P d r d'] a obtain n' where
    "mkdirp_at (P @ r) (tree fs) = Inr n'" by blast
  then show "\<exists>fs'. mkdirp p fs = (Inr (), fs')" by (simp add: mkdirp_def res)
qed

lemma enabled_writeFile:
  assumes "\<And>fs. cwd fs = c \<Longrightarrow> resolve fs p = P @ r" and "r \<noteq> []"
    and "p = [] \<or> last p \<noteq> CHR ''/''"
  shows "enabled P c (writeFile p txt) (WriteAt r txt)"
  unfolding enabled_def
proof (intro allI impI)
  fix fs :: filesystem and d d'
  assume a: "cwd fs = c \<and> lookup (tree fs) P = Some d \<and> local_run [WriteAt r txt] d = Inr d'"
  then have res: "resolve fs p = P @ r" using assms(1) by blast
  from a have "writeFile_at r txt d = Inr d'" by (simp split: sum.splits)
  with writeFile_at_enabled [of "tree fs" P d r "txt" d'] a assms(2) obtain n' where
    "writeFile_at (P @ r) txt (tree fs) = Inr n'" by blast
  with assms(3) show "\<exists>fs'. writeFile p txt fs = (Inr (), fs')"
    by (auto simp add: writeFile_def res)
qed

lemma in_sequence_enabled:
  "list_all2 (\<lambda>f g. focused P c f g \<and> enabled P c f g) fs gs \<Longrightarrow> cwd s = c
     \<Longrightarrow> lookup (tree s) P = Some d \<Longrightarrow> local_run gs d = Inr d'
     \<Longrightarrow> \<exists>s'. in_sequence fs s = (Inr (), s')"
proof (induction arbitrary: s d rule: list_all2_induct)
  case Nil
  then show ?case by simp
next
  case (Cons f fs g gs)
  from Cons.prems(3) obtain d1 where d1: "local_run [g] d = Inr d1" "local_run gs d1 = Inr d'"
    by (auto simp add: local_run_Cons [of g gs] split: sum.splits)
  from Cons.hyps(1) Cons.prems(1,2) d1(1) obtain s1 where s1: "f s = (Inr (), s1)"
    unfolding enabled_def by blast
  from Cons.hyps(1) Cons.prems(1,2) s1 obtain d1' where
    "local_run [g] d = Inr d1'" "lookup (tree s1) P = Some d1'" "cwd s1 = c"
    unfolding focused_def by blast
  with d1(1) have "lookup (tree s1) P = Some d1" "cwd s1 = c" by simp_all
  from Cons.IH [OF this(2) this(1) d1(2)] s1 show ?case by simp
qed

subsection \<open>Path names that do not end with a separator\<close>

lemma join_with_last_not_Nil:
  "xs \<noteq> [] \<Longrightarrow> last xs \<noteq> [] \<Longrightarrow> join_with sep xs \<noteq> []"
proof (induction xs)
  case Nil
  then show ?case by simp
next
  case (Cons x xs)
  then show ?case by (cases xs) simp_all
qed

lemma last_join_with:
  "xs \<noteq> [] \<Longrightarrow> last xs \<noteq> [] \<Longrightarrow> last (join_with sep xs) = last (last xs)"
proof (induction xs)
  case Nil
  then show ?case by simp
next
  case (Cons x xs)
  show ?case
  proof (cases xs)
    case Nil
    then show ?thesis by simp
  next
    case (Cons y ys)
    with Cons.IH Cons.prems have ih: "last (join_with sep (y # ys)) = last (last (y # ys))"
      by simp
    have "join_with sep (y # ys) \<noteq> []"
      using Cons.prems(2) Cons by (intro join_with_last_not_Nil) simp_all
    with ih Cons show ?thesis by simp
  qed
qed

lemma normalizeStep_push:
  "proper a \<Longrightarrow> a \<noteq> ''..'' \<Longrightarrow> normalizeStep allow res a = res @ [a]"
  by (simp add: normalizeStep_def proper_def)

lemma join_no_trailing:
  assumes "filter (\<lambda>a. a \<noteq> []) args = front @ [a]" and "front \<noteq> []"
    and "proper a" "a \<noteq> ''..''" "CHR ''/'' \<notin> set a"
  shows "last (join args) \<noteq> CHR ''/''"
proof -
  from assms(2) obtain x xs where front: "front = x # xs" by (cases front) auto
  have "x \<in> set (filter (\<lambda>a. a \<noteq> []) args)" using assms(1) front by simp
  then have x: "x \<noteq> []" by simp
  from assms(3) have a: "a \<noteq> []" by (simp add: proper_def)
  let ?q = "join_with ''/'' (front @ [a])"
  have q: "?q \<noteq> []" using x front by (simp add: join_with_not_Nil)
  have lastq: "last ?q = last a" using a by (simp add: last_join_with)
  with a assms(5) have notrail: "last ?q \<noteq> CHR ''/''" by (metis last_in_set)
  have segs: "segments ?q = concat (map segments front) @ [a]"
    using assms(5) by (simp add: segments_join_with segments_free)
  let ?abs = "hd ?q = CHR ''/''"
  let ?N = "normalizeString (segments ?q) (\<not> ?abs)"
  have N: "?N = foldl (normalizeStep (\<not> ?abs)) [] (concat (map segments front)) @ [a]"
    unfolding normalizeString_def segs
    by (simp add: normalizeStep_push [OF assms(3,4)])
  then have N': "?N \<noteq> []" "last ?N = a" by simp_all
  have body: "join_with ''/'' ?N \<noteq> []" "last (join_with ''/'' ?N) = last a"
  proof -
    show "last (join_with ''/'' ?N) = last a"
      using last_join_with [OF N'(1), of "''/''"] a N'(2) by simp
    obtain y ys where "?N = y # ys" using N'(1) by (cases ?N) auto
    moreover have "\<forall>z \<in> set ?N. proper z"
      unfolding normalizeString_def by (rule foldl_normalizeStep_proper) simp
    ultimately show "join_with ''/'' ?N \<noteq> []"
      by (simp add: join_with_not_Nil proper_def)
  qed
  have "join args = normalize ?q" using assms(1) front by (simp add: join_def)
  also have "normalize ?q = (if ?abs then ''/'' else []) @ join_with ''/'' ?N"
    using q notrail body(1) by (simp add: normalize_def Let_def)
  finally have "last (join args) = last a" using body by simp
  with a assms(5) show ?thesis by (metis last_in_set)
qed


lemma template_child_file:
  assumes "pp \<noteq> []" and "proper a" "a \<noteq> ''..''" "CHR ''/'' \<notin> set a"
  shows "last (join [pp, a]) \<noteq> CHR ''/''"
proof -
  from assms(2) have "a \<noteq> []" by (simp add: proper_def)
  with assms(1) have "filter (\<lambda>a. a \<noteq> []) [pp, a] = [pp] @ [a]" by simp
  from join_no_trailing [OF this _ assms(2,3,4)] show ?thesis by simp
qed

lemma template_grandchild_file:
  assumes "pp \<noteq> []" and "a \<noteq> []" and "proper b" "b \<noteq> ''..''" "CHR ''/'' \<notin> set b"
  shows "last (join [pp, a, b]) \<noteq> CHR ''/''"
proof -
  from assms(3) have "b \<noteq> []" by (simp add: proper_def)
  with assms(1,2) have "filter (\<lambda>a. a \<noteq> []) [pp, a, b] = [pp, a] @ [b]" by simp
  from join_no_trailing [OF this _ assms(3,4,5)] show ?thesis by simp
qed

lemma initTemplate_ready:
  assumes "pp \<noteq> []"
  shows "\<exists>ops. initTemplate t pp = in_sequence ops
            \<and> list_all2 (\<lambda>f g. focused (resolve fs0 pp) (cwd fs0) f g
                               \<and> enabled (resolve fs0 pp) (cwd fs0) f g)
                 ops (template_ops t pp)"
proof (cases t)
  case Html
  show ?thesis
    unfolding Html initTemplate_def initHTMLProject_def template_ops_def
    by (rule exI, rule conjI, simp)
       (simp add: focused_writeFile enabled_writeFile template_child [OF assms]
          template_child_file [OF assms] proper_def)
next
  case ViteReact
  show ?thesis
    unfolding ViteReact initTemplate_def initViteReactProject_def template_ops_def
    by (rule exI, rule conjI, simp)
       (simp add: focused_writeFile focused_mkdirp enabled_writeFile enabled_mkdirp
          template_child [OF assms] template_grandchild [OF assms]
          template_child_file [OF assms] template_grandchild_file [OF assms] proper_def)
next
  case ViteVue
  show ?thesis
    unfolding ViteVue initTemplate_def initViteVueProject_def template_ops_def
    by (rule exI, rule conjI, simp)
       (simp add: focused_writeFile focused_mkdirp enabled_writeFile enabled_mkdirp
          template_child [OF assms] template_grandchild [OF assms]
          template_child_file [OF assms] template_grandchild_file [OF assms] proper_def)
next
  case Node
  show ?thesis
    unfolding Node initTemplate_def initNodeProject_def template_ops_def
    by (rule exI, rule conjI, simp)
       (simp add: focused_writeFile focused_mkdirp enabled_writeFile enabled_mkdirp
          template_child [OF assms] template_grandchild [OF assms]
          template_child_file [OF assms] template_grandchild_file [OF assms] proper_def)
next
  case Python
  show ?thesis
    unfolding Python initTemplate_def initPythonProject_def template_ops_def
    by (rule exI, rule conjI, simp)
       (simp add: focused_writeFile enabled_writeFile template_child [OF assms]
          template_child_file [OF assms] proper_def)
qed


lemma fresh_directory:
  assumes "in_sequence
             [(\<lambda>fs. if exists_path pp fs then rimraf pp fs else (Inr (), fs)), mkdirp pp] fs
           = (Inr u, fs')"
  shows "lookup (tree fs') (resolve fs pp) = Some (Dir []) \<and> cwd fs' = cwd fs"
proof -
  let ?P = "resolve fs pp"
  let ?t1 = "if exists_path pp fs then rimraf_at ?P (tree fs) else tree fs"
  let ?fs1 = "fs\<lparr>tree := ?t1\<rparr>"
  have r1: "resolve ?fs1 pp = ?P" by (rule resolve_cwd) simp
  from assms have m: "mkdirp pp ?fs1 = (Inr u, fs')"
    by (auto simp add: rimraf_def split: if_splits prod.splits sum.splits)
  then obtain n' where n': "mkdirp_at ?P ?t1 = Inr n'" "fs' = ?fs1\<lparr>tree := n'\<rparr>"
    by (auto simp add: mkdirp_def r1 split: sum.splits)
  have "lookup n' ?P = Some (Dir [])"
  proof (cases "?P = []")
    case True
    then have "exists_path pp fs" by (simp add: exists_path_def)
    with True n'(1) show ?thesis by simp
  next
    case False
    have "lookup ?t1 ?P = None"
      using rimraf_at_lookup [OF False] by (simp add: exists_path_def)
    from mkdirp_at_fresh [OF this n'(1)] show ?thesis .
  qed
  with n'(2) show ?thesis by simp
qed

lemma in_sequence_append:
  "in_sequence (fs @ gs) s =
     (case in_sequence fs s of (Inl e, s') \<Rightarrow> (Inl e, s') | (Inr u, s') \<Rightarrow> in_sequence gs s')"
  by (induction fs arbitrary: s) (simp_all split: prod.splits sum.splits)


subsection \<open>Creating the project directory\<close>

lemma rimraf_at_ancestors:
  "k < length P \<Longrightarrow> file_at (rimraf_at P n) (take k P) = file_at n (take k P)"
proof (induction P arbitrary: n k)
  case Nil
  then show ?case by simp
next
  case (Cons s p)
  show ?case
  proof (cases n)
    case (File c)
    then show ?thesis by simp
  next
    case (Dir es)
    show ?thesis
    proof (cases k)
      case 0
      with Dir show ?thesis by (simp split: option.splits)
    next
      case (Suc j)
      with Cons.prems have j: "j < length p" by simp
      then have p: "p \<noteq> []" by auto
      show ?thesis
      proof (cases "map_of es s")
        case None
        with Dir show ?thesis by simp
      next
        case (Some ch)
        with Dir Suc p Cons.IH [OF j, of ch] show ?thesis
          by (simp add: file_at_Dir_Cons map_of_set_entry)
      qed
    qed
  qed
qed

lemma mkdirp_at_succeeds:
  "\<forall>k \<le> length P. file_at n (take k P) = None \<Longrightarrow> \<exists>n'. mkdirp_at P n = Inr n'"
proof (induction P arbitrary: n)
  case Nil
  then have "file_at n (take 0 []) = None" by blast
  then show ?case by (cases n) (simp_all add: file_at_def)
next
  case (Cons s p)
  from Cons.prems have "file_at n (take 0 (s # p)) = None" by blast
  then obtain es where Dir: "n = Dir es" by (cases n) (simp_all add: file_at_def)
  let ?ch = "case map_of es s of None \<Rightarrow> Dir [] | Some ch \<Rightarrow> ch"
  have "\<forall>k \<le> length p. file_at ?ch (take k p) = None"
  proof (intro allI impI)
    fix k assume "k \<le> length p"
    with Cons.prems have "file_at n (take (Suc k) (s # p)) = None" by auto
    with Dir show "file_at ?ch (take k p) = None"
      by (simp add: file_at_Dir_Cons split: option.splits)
  qed
  from Cons.IH [OF this] obtain ch' where "mkdirp_at p ?ch = Inr ch'" by blast
  with Dir show ?case by simp
qed

lemma fresh_directory_succeeds:
  assumes "ancestors_clear (tree fs) (resolve fs pp)"
  shows "\<exists>fs'. in_sequence
             [(\<lambda>fs. if exists_path pp fs then rimraf pp fs else (Inr (), fs)), mkdirp pp] fs
           = (Inr (), fs')"
proof -
  let ?P = "resolve fs pp"
  let ?t1 = "if exists_path pp fs then rimraf_at ?P (tree fs) else tree fs"
  let ?fs1 = "fs\<lparr>tree := ?t1\<rparr>"
  have r1: "resolve ?fs1 pp = ?P" by (rule resolve_cwd) simp
  from assms have clear: "\<forall>k < length ?P. file_at (tree fs) (take k ?P) = None"
    by (simp add: ancestors_clear_def list_all_iff)
  have "\<forall>k \<le> length ?P. file_at ?t1 (take k ?P) = None"
  proof (intro allI impI)
    fix k assume k: "k \<le> length ?P"
    show "file_at ?t1 (take k ?P) = None"
    proof (cases "k < length ?P")
      case True
      with clear rimraf_at_ancestors [OF True, of "tree fs"] show ?thesis by simp
    next
      case False
      with k have full: "take k ?P = ?P" by simp
      show ?thesis
      proof (cases "?P = []")
        case True
        then have "exists_path pp fs" by (simp add: exists_path_def)
        with True full show ?thesis by (simp add: file_at_def)
      next
        case False
        with rimraf_at_lookup [OF False, of "tree fs"] full show ?thesis
          by (auto simp add: file_at_def exists_path_def)
      qed
    qed
  qed
  from mkdirp_at_succeeds [OF this] obtain n' where "mkdirp_at ?P ?t1 = Inr n'" by blast
  then have "mkdirp pp ?fs1 = (Inr (), ?fs1\<lparr>tree := n'\<rparr>)"
    by (simp add: mkdirp_def r1)
  then show ?thesis
    by (cases "exists_path pp fs") (auto simp add: rimraf_def)
qed

text \<open>
  The members of a listing do not depend on the order of \<open>readdir\<close>.
\<close>

lemma mset_listEntries_Nil: "mset (listEntries fs dir sub []) = {#}"
  by (simp add: listEntries.simps readdir_def)

lemma mset_concat_readdir:
  "mset (concat (map f (readdir fs dir es))) = (\<Sum>e\<in>#mset es. mset (f e))"
proof -
  have "mset (concat (map f (readdir fs dir es)))
          = sum_list (map (\<lambda>e. mset (f e)) (readdir fs dir es))"
    by (simp add: mset_concat comp_def)
  also have "\<dots> = sum_mset (mset (map (\<lambda>e. mset (f e)) (readdir fs dir es)))"
    by (simp only: sum_mset_sum_list)
  also have "\<dots> = (\<Sum>e\<in>#mset es. mset (f e))"
    by (simp add: readdir_def)
  finally show ?thesis .
qed

lemma mset_listEntries_Cons:
  "mset (listEntries fs dir sub ((entry, n) # es))
     = (if skipped entry then {#}
        else (case n of
                File c \<Rightarrow> {#listed_file (relativePath sub entry) c#}
              | Dir ds \<Rightarrow>
                  add_mset (listed_directory (relativePath sub entry))
                    (mset (listEntries fs (dir @ [entry]) (relativePath sub entry) ds))))
       + mset (listEntries fs dir sub es)"
proof -
  let ?f = "\<lambda>(entry, n).
               if skipped entry then []
               else (case n of
                       File c \<Rightarrow>
                         [\<lparr>info_path = relativePath sub entry, info_type = TFile,
                           file_size = Some (length c)\<rparr>]
                     | Dir ds \<Rightarrow>
                         \<lparr>info_path = relativePath sub entry, info_type = TDirectory,
                          file_size = None\<rparr>
                           # listEntries fs (dir @ [entry]) (relativePath sub entry) ds)"
  have all: "\<And>xs. mset (listEntries fs dir sub xs) = (\<Sum>e\<in>#mset xs. mset (?f e))"
    by (subst listEntries.simps) (rule mset_concat_readdir)
  show ?thesis
    unfolding all
    by (cases n) (simp_all add: listed_file_def listed_directory_def)
qed

lemma not_skipped [simp]:
  "\<not> skipped ''index.html''" "\<not> skipped ''style.css''" "\<not> skipped ''script.js''"
  "\<not> skipped ''src''" "\<not> skipped ''public''" "\<not> skipped ''package.json''"
  "\<not> skipped ''vite.config.js''" "\<not> skipped ''main.jsx''" "\<not> skipped ''App.jsx''"
  "\<not> skipped ''index.css''" "\<not> skipped ''main.js''" "\<not> skipped ''App.vue''"
  "\<not> skipped ''index.js''" "\<not> skipped ''main.py''" "\<not> skipped ''requirements.txt''"
  by (simp_all add: skipped_def)

lemma mset_listEntries_template:
  "mset (listEntries fs dir [] (template_entries t pp)) = mset (template_listing t pp)"
  by (cases t)
     (simp_all add: template_entries_def template_listing_def mset_listEntries_Nil
        mset_listEntries_Cons relativePath_def)

lemma initProject_succeeds:
  assumes "ancestors_clear (tree fs) (resolve fs (join [workspaceDir sb, nm]))"
  shows "\<exists>info fs'. initProject sb nm t fs = (Inr info, fs')"
proof -
  let ?pp = "join [workspaceDir sb, nm]"
  let ?clean = "\<lambda>fs. if exists_path ?pp fs then rimraf ?pp fs else (Inr (), fs)"
  have pp: "?pp \<noteq> []" by (rule join_not_Nil)
  from fresh_directory_succeeds [OF assms] obtain fs1 where
    one: "in_sequence [?clean, mkdirp ?pp] fs = (Inr (), fs1)" by blast
  from fresh_directory [OF one] have
    d: "lookup (tree fs1) (resolve fs ?pp) = Some (Dir [])" and c: "cwd fs1 = cwd fs" by simp_all
  from initTemplate_ready [OF pp, of t fs] obtain ops where
    ops: "initTemplate t ?pp = in_sequence ops"
      "list_all2 (\<lambda>f g. focused (resolve fs ?pp) (cwd fs) f g
                        \<and> enabled (resolve fs ?pp) (cwd fs) f g) ops (template_ops t ?pp)"
    by blast
  from in_sequence_enabled [OF ops(2) c d local_run_template] obtain fs2 where
    two: "in_sequence ops fs1 = (Inr (), fs2)" by blast
  have foc: "list_all2 (focused (resolve fs ?pp) (cwd fs)) ops (template_ops t ?pp)"
    using ops(2) by (rule list_all2_mono) simp
  from in_sequence_focused [OF foc c d two] obtain d' where
    "lookup (tree fs2) (resolve fs ?pp) = Some d'" "cwd fs2 = cwd fs"
    "local_run (template_ops t ?pp) (Dir []) = Inr d'" by blast
  then have dir: "lookup (tree fs2) (resolve fs ?pp) = Some (Dir (template_entries t ?pp))"
    and c2: "cwd fs2 = cwd fs" by (simp_all add: local_run_template)
  have j: "join [workspaceDir sb, nm, []] = ?pp" by (simp add: join_def)
  from dir resolve_cwd [OF c2, of ?pp] have
    ls: "listFiles sb nm [] fs2
           = Inr (listEntries fs2 (resolve fs ?pp) [] (template_entries t ?pp))"
    by (simp add: listFiles_def j)
  have "in_sequence ([?clean, mkdirp ?pp] @ [initTemplate t ?pp]) fs = (Inr (), fs2)"
    unfolding in_sequence_append using one two ops(1) by simp
  then have "in_sequence [?clean, mkdirp ?pp, initTemplate t ?pp] fs = (Inr (), fs2)" by simp
  with ls show ?thesis by (simp add: initProject_def Let_def)
qed

lemma initProject_result:
  assumes "initProject sb nm t fs = (Inr info, fs')"
  shows "lookup (tree fs') (resolve fs (join [workspaceDir sb, nm]))
           = Some (Dir (template_entries t (join [workspaceDir sb, nm])))
         \<and> (\<forall>r. file_at (tree fs') (resolve fs (join [workspaceDir sb, nm]) @ r)
                  = file_at (Dir (template_entries t (join [workspaceDir sb, nm]))) r)
         \<and> mset (project_files info) = mset (template_listing t (join [workspaceDir sb, nm]))"
proof -
  let ?pp = "join [workspaceDir sb, nm]"
  let ?clean = "\<lambda>fs. if exists_path ?pp fs then rimraf ?pp fs else (Inr (), fs)"
  have pp: "?pp \<noteq> []" by (rule join_not_Nil)
  from assms obtain u listing where
    seq: "in_sequence [?clean, mkdirp ?pp, initTemplate t ?pp] fs = (Inr u, fs')"
    and ls: "listFiles sb nm [] fs' = Inr listing" "project_files info = listing"
    by (auto simp add: initProject_def Let_def split: prod.splits sum.splits)
  have "in_sequence ([?clean, mkdirp ?pp] @ [initTemplate t ?pp]) fs = (Inr u, fs')"
    using seq by simp
  then obtain u1 fs1 where
    one: "in_sequence [?clean, mkdirp ?pp] fs = (Inr u1, fs1)"
    and two: "initTemplate t ?pp fs1 = (Inr u, fs')"
    unfolding in_sequence_append by (auto split: prod.splits sum.splits)
  from fresh_directory [OF one] have
    d: "lookup (tree fs1) (resolve fs ?pp) = Some (Dir [])" and c: "cwd fs1 = cwd fs" by simp_all
  from initTemplate_ready [OF pp, of t fs] obtain ops where
    ops0: "initTemplate t ?pp = in_sequence ops"
      "list_all2 (\<lambda>f g. focused (resolve fs ?pp) (cwd fs) f g
                        \<and> enabled (resolve fs ?pp) (cwd fs) f g) ops (template_ops t ?pp)"
    by blast
  have ops: "initTemplate t ?pp = in_sequence ops"
      "list_all2 (focused (resolve fs ?pp) (cwd fs)) ops (template_ops t ?pp)"
    using ops0(1) list_all2_mono [OF ops0(2)] by auto
  from two ops(1) have "in_sequence ops fs1 = (Inr u, fs')" by simp
  from in_sequence_focused [OF ops(2) c d this] obtain d' where
    "local_run (template_ops t ?pp) (Dir []) = Inr d'"
    "lookup (tree fs') (resolve fs ?pp) = Some d'" "cwd fs' = cwd fs" by blast
  then have dir: "lookup (tree fs') (resolve fs ?pp) = Some (Dir (template_entries t ?pp))"
    and c': "cwd fs' = cwd fs"
    by (simp_all add: local_run_template)
  have below: "\<forall>r. file_at (tree fs') (resolve fs ?pp @ r)
                  = file_at (Dir (template_entries t ?pp)) r"
    using dir by (simp add: file_at_def lookup_append)
  have "join [workspaceDir sb, nm, []] = ?pp" by (simp add: join_def)
  with dir resolve_cwd [OF c', of ?pp] have
    "listFiles sb nm [] fs' = Inr (listEntries fs' (resolve fs ?pp) [] (template_entries t ?pp))"
    by (simp add: listFiles_def)
  with ls have "project_files info
                  = listEntries fs' (resolve fs ?pp) [] (template_entries t ?pp)"
    by simp
  then have "mset (project_files info) = mset (template_listing t ?pp)"
    by (simp only: mset_listEntries_template)
  with dir below show ?thesis by simp
qed


text \<open>
  Claim C7, as amended. \<open>initProject\<close> succeeds whenever no proper ancestor of the project
  directory is a file. After a successful \<open>initProject\<close> the project directory is the
  boilerplate of the template and nothing else, whatever the disk held before: a
  directory of that name and everything written into it are gone, and the files at the
  locations below the project directory are those of the template. A second call on the
  disk left by a first call and by any writes after it therefore discards what was
  written in between at a location below the project directory. The listing returned
  holds the files and the directories of the template, each once and nothing else, in
  the order of \<open>readdir\<close>: for the Node template these are \<open>package.json\<close>, \<open>src\<close> and
  \<open>src/index.js\<close>.
\<close>

theorem initProject_recreates:
  "(ancestors_clear (tree fs) (resolve fs (join [workspaceDir sb, nm])) \<longrightarrow>
      (\<exists>info fs'. initProject sb nm t fs = (Inr info, fs')))
   \<and> (\<forall>info fs'. initProject sb nm t fs = (Inr info, fs') \<longrightarrow>
        lookup (tree fs') (resolve fs (join [workspaceDir sb, nm]))
          = Some (Dir (template_entries t (join [workspaceDir sb, nm])))
        \<and> (\<forall>r. file_at (tree fs') (resolve fs (join [workspaceDir sb, nm]) @ r)
                 = file_at (Dir (template_entries t (join [workspaceDir sb, nm]))) r)
        \<and> mset (project_files info) = mset (template_listing t (join [workspaceDir sb, nm])))"
  using initProject_succeeds [of fs sb nm t] initProject_result [of sb nm t fs]
  by blast

theorem initProject_recreates_witness:
  "\<not> isl (fst firstInit)
   \<and> ancestors_clear (tree edited) (resolve edited (join [workspaceDir exampleSandbox, ''demo'']))
   \<and> \<not> isl (fst secondInit)
   \<and> file_at (tree edited) [''ws'', ''demo'', ''notes.txt''] = Some ''draft''
   \<and> resolve edited (join [workspaceDir exampleSandbox, ''demo'']) = [''ws'', ''demo'']
   \<and> file_at (tree (snd secondInit)) ([''ws'', ''demo''] @ [''notes.txt'']) = None
   \<and> file_at (tree (snd secondInit)) ([''ws'', ''demo''] @ [''src'', ''index.js''])
        = Some node_indexJs
   \<and> fst secondInit = fst firstInit
   \<and> fst secondInit
        = Inr \<lparr>name = ''demo'', project_path = ''/ws/demo'',
               project_files =
                 [listed_file ''package.json'' (node_packageJson ''/ws/demo''),
                  listed_directory ''src'',
                  listed_file ''src/index.js'' node_indexJs]\<rparr>
   \<and> mset (project_files (projr (fst secondInit)))
        = mset (template_listing Node (join [workspaceDir exampleSandbox, ''demo'']))"
proof -
  have first: "\<not> isl (fst firstInit)" by code_simp
  have same: "fst secondInit = fst firstInit" by code_simp
  have listing: "fst secondInit
        = Inr \<lparr>name = ''demo'', project_path = ''/ws/demo'',
               project_files =
                 [listed_file ''package.json'' (node_packageJson ''/ws/demo''),
                  listed_directory ''src'',
                  listed_file ''src/index.js'' node_indexJs]\<rparr>"
    by code_simp
  have before: "file_at (tree edited) [''ws'', ''demo'', ''notes.txt''] = Some ''draft''"
    by code_simp
  have P: "resolve edited (join [workspaceDir exampleSandbox, ''demo'']) = [''ws'', ''demo'']"
    by code_simp
  have clear: "ancestors_clear (tree edited)
                 (resolve edited (join [workspaceDir exampleSandbox, ''demo'']))"
    by code_simp
  note inst = initProject_recreates [of edited exampleSandbox "''demo''" Node]
  from inst clear obtain info fs' where
    run: "initProject exampleSandbox ''demo'' Node edited = (Inr info, fs')" by blast
  then have snd: "snd secondInit = fs'" and ok: "\<not> isl (fst secondInit)"
    and info: "projr (fst secondInit) = info"
    by (simp_all add: secondInit_def)
  have gone: "file_at (Dir (template_entries Node (join [workspaceDir exampleSandbox, ''demo''])))
                [''notes.txt''] = None"
    by (simp add: template_entries_def file_at_def)
  have fresh: "file_at (Dir (template_entries Node (join [workspaceDir exampleSandbox, ''demo''])))
                [''src'', ''index.js''] = Some node_indexJs"
    by (simp add: template_entries_def file_at_def)
  from inst run have
    "\<forall>r. file_at (tree fs') (resolve edited (join [workspaceDir exampleSandbox, ''demo'']) @ r)
          = file_at (Dir (template_entries Node (join [workspaceDir exampleSandbox, ''demo'']))) r"
    by blast
  with P gone fresh snd
  have files: "file_at (tree (snd secondInit)) ([''ws'', ''demo''] @ [''notes.txt'']) = None"
    "file_at (tree (snd secondInit)) ([''ws'', ''demo''] @ [''src'', ''index.js''])
        = Some node_indexJs"
    by simp_all
  from inst run info have members: "mset (project_files (projr (fst secondInit)))
        = mset (template_listing Node (join [workspaceDir exampleSandbox, ''demo'']))"
    by blast
  from first ok same before P clear files listing members show ?thesis by simp
qed

text \<open>
  The claim as stated has the second call discard every file written between the two
  calls. A file written through a path that leaves the project directory is kept: after
  the first call, \<open>writeProjectFile\<close> with the path \<open>../kept.txt\<close> writes beside the project
  directory, and the file is still there after the second call.
\<close>

theorem initProject_keeps_outside_counterexample:
  "\<not> isl (fst firstInit)
   \<and> file_at (tree (snd firstInit)) [''ws'', ''kept.txt''] = None
   \<and> fst (writeProjectFile exampleSandbox ''demo'' ''../kept.txt'' ''draft'' (snd firstInit))
        = Inr ()
   \<and> file_at (tree escaped) [''ws'', ''kept.txt''] = Some ''draft''
   \<and> \<not> isl (fst thirdInit)
   \<and> file_at (tree (snd thirdInit)) [''ws'', ''kept.txt''] = Some ''draft''"
proof -
  have a: "\<not> isl (fst firstInit)" by code_simp
  have b: "file_at (tree (snd firstInit)) [''ws'', ''kept.txt''] = None" by code_simp
  have c: "fst (writeProjectFile exampleSandbox ''demo'' ''../kept.txt'' ''draft''
                  (snd firstInit)) = Inr ()"
    by code_simp
  have d: "file_at (tree escaped) [''ws'', ''kept.txt''] = Some ''draft''" by code_simp
  have e: "\<not> isl (fst thirdInit)" by code_simp
  have f: "file_at (tree (snd thirdInit)) [''ws'', ''kept.txt''] = Some ''draft''" by code_simp
  from a b c d e f show ?thesis by simp
qed

end
